theory Spec2Isabelle
  imports Complex_Main "HOL-Library.Word"
begin

unbundle bit_operations_syntax

section \<open>JavaScript values used by the HiLink client\<close>

text \<open>
  Strings are lists of code units; the model covers the code units below 256.
  A JavaScript number is a double. The numbers that the code reads from the network
  come from \<open>parseInt\<close>, which never returns a fraction: NaN, an integer that a
  double holds, or an infinity. (\<open>-0\<close> is taken for 0: the program has no operation
  that tells them apart.) An optional value is \<open>None\<close> where the JavaScript value is
  \<open>undefined\<close> or \<open>null\<close>.
\<close>

datatype number = NaN | Num int | Infinity | NegInfinity

datatype js_error =
    Error string
  | TypeError string
  | RangeError string
  | ReferenceError string
  | AxiosError string

text \<open>\<open>'' + e\<close> for a thrown value: the name of the error class, a colon, the message.\<close>

fun error_toString :: "js_error \<Rightarrow> string" where
  "error_toString (Error m) = ''Error: '' @ m"
| "error_toString (TypeError m) = ''TypeError: '' @ m"
| "error_toString (RangeError m) = ''RangeError: '' @ m"
| "error_toString (ReferenceError m) = ''ReferenceError: '' @ m"
| "error_toString (AxiosError m) = ''Error: '' @ m"

fun error_message :: "js_error \<Rightarrow> string" where
  "error_message (Error m) = m"
| "error_message (TypeError m) = m"
| "error_message (RangeError m) = m"
| "error_message (ReferenceError m) = m"
| "error_message (AxiosError m) = m"

text \<open>String concatenation with a value that may be \<open>undefined\<close>.\<close>

definition str_of :: "string option \<Rightarrow> string" where
  "str_of v = (case v of None \<Rightarrow> ''undefined'' | Some s \<Rightarrow> s)"

subsection \<open>Arrays of 32-bit words\<close>

text \<open>
  A CryptoJS \<open>WordArray\<close>: the words are JavaScript numbers holding signed 32-bit
  values, read and written only through the bit operators, so a word is a \<open>32 word\<close>.
  \<open>sigBytes\<close> is a JavaScript number: \<open>Hex.parse\<close> sets it to half the length of its
  argument, which is a fraction for a string of odd length.
\<close>

record WordArray =
  words :: "32 word list"
  sigBytes :: rat

text \<open>
  Reading \<open>ws[i]\<close> under a bit operator: an index past the end gives \<open>undefined\<close>,
  which the operator converts to 0. Writing \<open>ws[i] = v\<close> past the end extends the
  array; the holes it leaves read as \<open>undefined\<close>, hence as 0 as well.
\<close>

definition js_get :: "32 word list \<Rightarrow> nat \<Rightarrow> 32 word" where
  "js_get ws i = (if i < length ws then ws ! i else 0)"

definition js_set :: "32 word list \<Rightarrow> nat \<Rightarrow> 32 word \<Rightarrow> 32 word list" where
  "js_set ws i v =
     (if i < length ws then ws[i := v] else ws @ replicate (i - length ws) 0 @ [v])"

text \<open>
  \<open>[...Array(n).keys()]\<close>: \<open>Array(n)\<close> throws a RangeError unless \<open>n\<close> is an
  integer from 0 to \<open>2^32 - 1\<close>; the keys are \<open>0, ..., n - 1\<close>.
\<close>

definition array_keys :: "rat \<Rightarrow> js_error + nat list" where
  "array_keys n =
     (if of_int \<lfloor>n\<rfloor> = n \<and> 0 \<le> n \<and> n < 2 ^ 32 then Inr [0..<nat \<lfloor>n\<rfloor>]
      else Inl (RangeError ''Invalid array length''))"

subsection \<open>parseInt\<close>

definition js_whitespace :: "char \<Rightarrow> bool" where
  "js_whitespace c = (of_char c \<in> {9, 10, 11, 12, 13, 32, 160 :: nat})"

definition digit_value :: "char \<Rightarrow> nat option" where
  "digit_value c =
     (let n = (of_char c :: nat) in
      if 48 \<le> n \<and> n \<le> 57 then Some (n - 48)
      else if 97 \<le> n \<and> n \<le> 122 then Some (n - 87)
      else if 65 \<le> n \<and> n \<le> 90 then Some (n - 55)
      else None)"

definition is_digit :: "nat \<Rightarrow> char \<Rightarrow> bool" where
  "is_digit radix c = (case digit_value c of None \<Rightarrow> False | Some d \<Rightarrow> d < radix)"

definition digits_value :: "nat \<Rightarrow> string \<Rightarrow> nat" where
  "digits_value radix ds = foldl (\<lambda>acc c. acc * radix + the (digit_value c)) 0 ds"

text \<open>
  The double nearest to a natural number. A double has a significand of 53 bits: of a
  longer number the \<open>e\<close> low bits are rounded away, to the nearer multiple of
  \<open>2^e\<close> and to the one with the even significand when both are equally near. What
  rounds to \<open>2^1024\<close> or more is an infinity (\<open>None\<close>).
\<close>

fun bit_length :: "nat \<Rightarrow> nat" where
  "bit_length n = (if n = 0 then 0 else Suc (bit_length (n div 2)))"

declare bit_length.simps [simp del]

definition to_double :: "nat \<Rightarrow> nat option" where
  "to_double n =
     (let e = bit_length n - 53;
          q = n div 2 ^ e;
          r = n mod 2 ^ e;
          m = (if 2 ^ e < 2 * r \<or> (2 * r = 2 ^ e \<and> odd q) then q + 1 else q)
      in if 1024 < bit_length m + e then None else Some (m * 2 ^ e))"

text \<open>
  \<open>parseInt(s, radix)\<close> for radix 10 and 16: leading white space is skipped, one sign
  is read, with radix 16 a prefix \<open>0x\<close> or \<open>0X\<close> is skipped, and the longest run of
  digits of the radix is the value, rounded to a double; no digit gives NaN.
  (ECMAScript lets an implementation read the decimal digits after the 20th as zeros;
  the model rounds the exact value.)
\<close>

definition parseInt :: "string \<Rightarrow> nat \<Rightarrow> number" where
  "parseInt s radix =
     (let s1 = dropWhile js_whitespace s;
          neg = (take 1 s1 = ''-'');
          s2 = (if take 1 s1 = ''-'' \<or> take 1 s1 = ''+'' then drop 1 s1 else s1);
          s3 = (if radix = 16 \<and> (take 2 s2 = ''0x'' \<or> take 2 s2 = ''0X'') then drop 2 s2 else s2);
          ds = takeWhile (is_digit radix) s3
      in if ds = [] then NaN
         else (case to_double (digits_value radix ds) of
                 None \<Rightarrow> if neg then NegInfinity else Infinity
               | Some m \<Rightarrow> Num ((if neg then - 1 else 1) * int m)))"

text \<open>
  A number under a bit operator: \<open>ToInt32\<close>, with NaN and the infinities converted
  to 0.
\<close>

definition toInt32 :: "number \<Rightarrow> 32 word" where
  "toInt32 n = (case n of Num v \<Rightarrow> word_of_int v | _ \<Rightarrow> 0)"

section \<open>The CryptoJS interface\<close>

text \<open>
  The hash functions of CryptoJS are parameters of the model: every theorem holds for
  each choice of them. A message, key, password or salt is a string or a word array,
  or \<open>undefined\<close> when the caller passes an unset field. \<open>HmacSHA256\<close> takes the
  message first and the key second, \<open>PBKDF2\<close> the password, the salt and a
  configuration. A hasher object is the list of the values passed to its
  \<open>update\<close>; \<open>SHA256_finalize\<close> is the digest of that list.
\<close>

datatype input = Str string | WA WordArray | Undefined

datatype hasher_algo = SHA1 | SHA256

record pbkdf2_cfg =
  hasher :: hasher_algo
  iterations :: "number option"
  keySize :: nat

record cryptojs =
  PBKDF2 :: "input \<Rightarrow> input \<Rightarrow> pbkdf2_cfg \<Rightarrow> WordArray"
  HmacSHA256 :: "input \<Rightarrow> input \<Rightarrow> WordArray"
  SHA256_finalize :: "input list \<Rightarrow> WordArray"

definition input_of :: "string option \<Rightarrow> input" where
  "input_of v = (case v of None \<Rightarrow> Undefined | Some s \<Rightarrow> Str s)"

subsection \<open>The hex encoder of CryptoJS\<close>

text \<open>
  \<open>CryptoJS.enc.Hex\<close>, which \<open>WordArray.toString()\<close> uses by default:
  \<^verbatim>\<open>
  stringify: for (var i = 0; i < sigBytes; i++) {
      var bite = (words[i >>> 2] >>> (24 - (i % 4) * 8)) & 0xff;
      hexChars.push((bite >>> 4).toString(16));
      hexChars.push((bite & 0x0f).toString(16)); }
  parse: for (var i = 0; i < hexStrLength; i += 2) {
      words[i >>> 3] |= parseInt(hexStr.substr(i, 2), 16) << (24 - (i % 8) * 4); }
    return new WordArray.init(words, hexStrLength / 2);
  \<close>
\<close>

definition hexDigit :: "32 word \<Rightarrow> char" where
  "hexDigit d = ''0123456789abcdef'' ! unat d"

definition byteAt :: "32 word list \<Rightarrow> nat \<Rightarrow> 32 word" where
  "byteAt ws i = drop_bit (24 - (i mod 4) * 8) (js_get ws (i div 4)) AND 0xff"

definition hexByte :: "32 word \<Rightarrow> string" where
  "hexByte bite = [hexDigit (drop_bit 4 bite), hexDigit (bite AND 0x0f)]"

definition Hex_stringify :: "WordArray \<Rightarrow> string" where
  "Hex_stringify w = concat (map (\<lambda>i. hexByte (byteAt (words w) i)) [0..<nat \<lceil>sigBytes w\<rceil>])"

fun Hex_parse_loop :: "nat \<Rightarrow> string \<Rightarrow> 32 word list \<Rightarrow> 32 word list" where
  "Hex_parse_loop i [] ws = ws"
| "Hex_parse_loop i (c # cs) ws =
     Hex_parse_loop (i + 2) (drop 1 cs)
       (js_set ws (i div 8)
          (js_get ws (i div 8) OR
           push_bit (24 - (i mod 8) * 4) (toInt32 (parseInt (c # take 1 cs) 16))))"

definition Hex_parse :: "string \<Rightarrow> WordArray" where
  "Hex_parse hexStr =
     \<lparr>words = Hex_parse_loop 0 hexStr [], sigBytes = of_nat (length hexStr) / 2\<rparr>"

section \<open>HwScramAuth\<close>

record HwScramAuth =
  clientNonce :: "string option"
  iters :: "number option"
  pwd :: string
  salt :: "string option"
  serverNonce :: "string option"
  sigSecret :: "string option"

definition KEYSIZE :: nat where
  "KEYSIZE = 8"

text \<open>\<open>new HwScramAuth(pwd)\<close>: only the password is set.\<close>

definition new_HwScramAuth :: "string \<Rightarrow> HwScramAuth" where
  "new_HwScramAuth p =
     \<lparr>clientNonce = None, iters = None, pwd = p, salt = None, serverNonce = None,
      sigSecret = None\<rparr>"

definition setParams :: "HwScramAuth \<Rightarrow> string \<Rightarrow> string \<Rightarrow> string \<Rightarrow> number \<Rightarrow> HwScramAuth" where
  "setParams this cNonce sNonce slt its =
     this\<lparr>clientNonce := Some cNonce, iters := Some its, salt := Some slt,
          serverNonce := Some sNonce,
          sigSecret := Some (cNonce @ '','' @ sNonce @ '','' @ sNonce)\<rparr>"

text \<open>
  \<open>deriveKey\<close>: \<open>Hex.parse(this.salt)\<close> reads \<open>this.salt.length\<close>, a TypeError
  while the salt is unset.
\<close>

definition deriveKey :: "cryptojs \<Rightarrow> HwScramAuth \<Rightarrow> string \<Rightarrow> js_error + WordArray" where
  "deriveKey L this hmacKey =
     (case salt this of
        None \<Rightarrow> Inl (TypeError ''Cannot read property length of undefined'')
      | Some slt \<Rightarrow>
          (let saltedPwd = PBKDF2 L (Str (pwd this)) (WA (Hex_parse slt))
                 \<lparr>hasher = SHA256, iterations = iters this, keySize = KEYSIZE\<rparr>
           in Inr (HmacSHA256 L (WA saltedPwd) (Str hmacKey))))"

text \<open>The loop of \<open>calcProof\<close> over the keys \<open>is\<close>, on the words of the client key.\<close>

fun xor_loop :: "nat list \<Rightarrow> 32 word list \<Rightarrow> 32 word list \<Rightarrow> 32 word list" where
  "xor_loop [] ckWords sgWords = ckWords"
| "xor_loop (i # is) ckWords sgWords =
     xor_loop is (js_set ckWords i (js_get ckWords i XOR js_get sgWords i)) sgWords"

text \<open>
  Lines 76 to 78 of \<open>calcProof\<close>: the keys of \<open>Array(clientKey.sigBytes / 4)\<close>,
  then the loop, which writes into the words of the client key.
\<close>

definition xor_in_place :: "WordArray \<Rightarrow> WordArray \<Rightarrow> js_error + WordArray" where
  "xor_in_place clientKey signature =
     (case array_keys (sigBytes clientKey / 4) of
        Inl e \<Rightarrow> Inl e
      | Inr ks \<Rightarrow> Inr (clientKey\<lparr>words := xor_loop ks (words clientKey) (words signature)\<rparr>))"

text \<open>
  Every call returns its result, the lines it writes to the console and the object
  after the call. \<open>doc\<close> tells whether \<open>document\<close> is defined (a browser), in
  which case \<open>calcProof\<close> prints nothing.
\<close>

definition calcProof_log ::
  "HwScramAuth \<Rightarrow> string \<Rightarrow> WordArray \<Rightarrow> WordArray \<Rightarrow> WordArray \<Rightarrow> string list" where
  "calcProof_log this clientDgst storedKey signature clientKey =
     ['''',
      ''Client nonce:     '' @ str_of (clientNonce this),
      ''Server nonce:     '' @ str_of (serverNonce this),
      ''Salt:             '' @ str_of (salt this),
      ''----------------------------'',
      ''Client digest:    '' @ clientDgst,
      ''Stored digest:    '' @ Hex_stringify storedKey,
      ''Signature digest: '' @ Hex_stringify signature,
      ''----------------------------'',
      ''Login proof:      '' @ Hex_stringify clientKey,
      '''']"

definition calcProof ::
  "cryptojs \<Rightarrow> bool \<Rightarrow> HwScramAuth \<Rightarrow> (js_error + string) \<times> string list \<times> HwScramAuth" where
  "calcProof L doc this =
     (case deriveKey L this ''Client Key'' of
        Inl e \<Rightarrow> (Inl e, [], this)
      | Inr clientKey \<Rightarrow>
          (let clientDgst = Hex_stringify clientKey;
               clientHasher = [];
               storedKey = SHA256_finalize L (clientHasher @ [WA clientKey]);
               signature = HmacSHA256 L (WA storedKey) (input_of (sigSecret this))
           in case xor_in_place clientKey signature of
                Inl e \<Rightarrow> (Inl e, [], this)
              | Inr clientKey' \<Rightarrow>
                  (let out = (if \<not> doc
                              then calcProof_log this clientDgst storedKey signature clientKey'
                              else [])
                   in (Inr (Hex_stringify clientKey'), out, this))))"

definition calcServerProof ::
  "cryptojs \<Rightarrow> HwScramAuth \<Rightarrow> (js_error + string) \<times> string list \<times> HwScramAuth" where
  "calcServerProof L this =
     (case deriveKey L this ''Server Key'' of
        Inl e \<Rightarrow> (Inl e, [], this)
      | Inr serverKey \<Rightarrow>
          (let signature = HmacSHA256 L (WA serverKey) (input_of (sigSecret this))
           in (Inr (Hex_stringify signature), [], this)))"

definition calcPubSig ::
  "cryptojs \<Rightarrow> HwScramAuth \<Rightarrow> string \<Rightarrow> (js_error + string) \<times> string list \<times> HwScramAuth" where
  "calcPubSig L this key =
     (case deriveKey L this ''Server Key'' of
        Inl e \<Rightarrow> (Inl e, [], this)
      | Inr serverKeyD \<Rightarrow>
          (let serverKey = Hex_parse (Hex_stringify serverKeyD);
               publicKey = Hex_parse key;
               signature = HmacSHA256 L (WA publicKey) (WA serverKey)
           in (Inr (Hex_stringify signature), [], this)))"


text \<open>
  A sequence of calls of the three proof methods on one object: the object that a
  call leaves behind is the one the next call runs on.
\<close>

datatype call = CalcProof | CalcServerProof | CalcPubSig string

fun do_call ::
  "cryptojs \<Rightarrow> bool \<Rightarrow> call \<Rightarrow> HwScramAuth \<Rightarrow> (js_error + string) \<times> string list \<times> HwScramAuth" where
  "do_call L doc CalcProof this = calcProof L doc this"
| "do_call L doc CalcServerProof this = calcServerProof L this"
| "do_call L doc (CalcPubSig key) this = calcPubSig L this key"

fun run_calls ::
  "cryptojs \<Rightarrow> bool \<Rightarrow> call list \<Rightarrow> HwScramAuth \<Rightarrow> (js_error + string) list \<times> HwScramAuth" where
  "run_calls L doc [] this = ([], this)"
| "run_calls L doc (c # cs) this =
     (case do_call L doc c this of
        (r, out, this') \<Rightarrow>
          (case run_calls L doc cs this' of (rs, this'') \<Rightarrow> (r # rs, this'')))"

subsection \<open>The word arrays as objects\<close>

text \<open>
  A \<open>WordArray\<close> is an object, and the loop of \<open>calcProof\<close> writes into one. To
  follow which object that is, the methods are written once more over a store of word
  arrays: a reference is a position in the store, a new object goes to its end, and a
  write replaces the object at its position. What is passed to CryptoJS is a string, a
  reference or \<open>undefined\<close>.
\<close>

type_synonym addr = nat
type_synonym store = "WordArray list"

datatype arg = StrArg string | ObjArg addr | NoArg

definition alloc :: "store \<Rightarrow> WordArray \<Rightarrow> addr \<times> store" where
  "alloc h w = (length h, h @ [w])"

definition value_at :: "store \<Rightarrow> arg \<Rightarrow> input" where
  "value_at h a =
     (case a of
        StrArg s \<Rightarrow> Str s
      | ObjArg r \<Rightarrow> if r < length h then WA (h ! r) else Undefined
      | NoArg \<Rightarrow> Undefined)"

definition arg_of :: "string option \<Rightarrow> arg" where
  "arg_of v = (case v of None \<Rightarrow> NoArg | Some s \<Rightarrow> StrArg s)"


text \<open>
  The functions of CryptoJS over the store. Each call builds its result as a new
  object (\<open>WordArray.create\<close>) from the content that its arguments have at the call;
  the content is what the parameter \<open>cryptojs\<close> computes. A hasher copies what
  \<open>update\<close> is given, so \<open>SHA256_finalize_at\<close> takes contents.
\<close>

definition Hex_parse_at :: "string \<Rightarrow> store \<Rightarrow> addr \<times> store" where
  "Hex_parse_at hexStr h = alloc h (Hex_parse hexStr)"

definition PBKDF2_at :: "cryptojs \<Rightarrow> arg \<Rightarrow> arg \<Rightarrow> pbkdf2_cfg \<Rightarrow> store \<Rightarrow> addr \<times> store" where
  "PBKDF2_at L password slt cfg h = alloc h (PBKDF2 L (value_at h password) (value_at h slt) cfg)"

definition HmacSHA256_at :: "cryptojs \<Rightarrow> arg \<Rightarrow> arg \<Rightarrow> store \<Rightarrow> addr \<times> store" where
  "HmacSHA256_at L message key h = alloc h (HmacSHA256 L (value_at h message) (value_at h key))"

definition SHA256_finalize_at :: "cryptojs \<Rightarrow> input list \<Rightarrow> store \<Rightarrow> addr \<times> store" where
  "SHA256_finalize_at L updates h = alloc h (SHA256_finalize L updates)"


text \<open>\<open>deriveKey\<close>: three new objects, the decoded salt, the salted password and the key.\<close>

definition deriveKey_at ::
  "cryptojs \<Rightarrow> HwScramAuth \<Rightarrow> string \<Rightarrow> store \<Rightarrow> (js_error + addr) \<times> store" where
  "deriveKey_at L this hmacKey h =
     (case salt this of
        None \<Rightarrow> (Inl (TypeError ''Cannot read property length of undefined''), h)
      | Some slt \<Rightarrow>
          (case Hex_parse_at slt h of
             (saltWords, h1) \<Rightarrow>
               (case PBKDF2_at L (StrArg (pwd this)) (ObjArg saltWords)
                       \<lparr>hasher = SHA256, iterations = iters this, keySize = KEYSIZE\<rparr> h1 of
                  (saltedPwd, h2) \<Rightarrow>
                    (case HmacSHA256_at L (ObjArg saltedPwd) (StrArg hmacKey) h2 of
                       (key, h3) \<Rightarrow> (Inr key, h3)))))"


text \<open>
  The loop of \<open>calcProof\<close>: each step reads \<open>clientKey.words[i]\<close> and
  \<open>signature.words[i]\<close> from the store as it is then, and writes
  \<open>clientKey.words[i]\<close>.
\<close>

fun xor_loop_at :: "nat list \<Rightarrow> addr \<Rightarrow> addr \<Rightarrow> store \<Rightarrow> store" where
  "xor_loop_at [] clientKey signature h = h"
| "xor_loop_at (i # is) clientKey signature h =
     xor_loop_at is clientKey signature
       (h[clientKey := (h ! clientKey)
            \<lparr>words := js_set (words (h ! clientKey)) i
                        (js_get (words (h ! clientKey)) i XOR js_get (words (h ! signature)) i)\<rparr>])"


text \<open>
  The three proof methods. They return what they return in the first writing (result,
  console lines, object) and the store after the call.
\<close>

definition calcProof_at ::
  "cryptojs \<Rightarrow> bool \<Rightarrow> HwScramAuth \<Rightarrow> store \<Rightarrow>
   ((js_error + string) \<times> string list \<times> HwScramAuth) \<times> store" where
  "calcProof_at L doc this h =
     (case deriveKey_at L this ''Client Key'' h of
        (Inl e, h1) \<Rightarrow> ((Inl e, [], this), h1)
      | (Inr clientKey, h1) \<Rightarrow>
          (let clientDgst = Hex_stringify (h1 ! clientKey);
               clientHasher = [];
               clientHasher = clientHasher @ [value_at h1 (ObjArg clientKey)]
           in case SHA256_finalize_at L clientHasher h1 of
                (storedKey, h2) \<Rightarrow>
                  (case HmacSHA256_at L (ObjArg storedKey) (arg_of (sigSecret this)) h2 of
                     (signature, h3) \<Rightarrow>
                       (case array_keys (sigBytes (h3 ! clientKey) / 4) of
                          Inl e \<Rightarrow> ((Inl e, [], this), h3)
                        | Inr ks \<Rightarrow>
                            (let h4 = xor_loop_at ks clientKey signature h3;
                                 out = (if \<not> doc
                                        then calcProof_log this clientDgst (h4 ! storedKey)
                                               (h4 ! signature) (h4 ! clientKey)
                                        else [])
                             in ((Inr (Hex_stringify (h4 ! clientKey)), out, this), h4))))))"

definition calcServerProof_at ::
  "cryptojs \<Rightarrow> HwScramAuth \<Rightarrow> store \<Rightarrow>
   ((js_error + string) \<times> string list \<times> HwScramAuth) \<times> store" where
  "calcServerProof_at L this h =
     (case deriveKey_at L this ''Server Key'' h of
        (Inl e, h1) \<Rightarrow> ((Inl e, [], this), h1)
      | (Inr serverKey, h1) \<Rightarrow>
          (case HmacSHA256_at L (ObjArg serverKey) (arg_of (sigSecret this)) h1 of
             (signature, h2) \<Rightarrow> ((Inr (Hex_stringify (h2 ! signature)), [], this), h2)))"

definition calcPubSig_at ::
  "cryptojs \<Rightarrow> HwScramAuth \<Rightarrow> string \<Rightarrow> store \<Rightarrow>
   ((js_error + string) \<times> string list \<times> HwScramAuth) \<times> store" where
  "calcPubSig_at L this key h =
     (case deriveKey_at L this ''Server Key'' h of
        (Inl e, h1) \<Rightarrow> ((Inl e, [], this), h1)
      | (Inr serverKeyD, h1) \<Rightarrow>
          (case Hex_parse_at (Hex_stringify (h1 ! serverKeyD)) h1 of
             (serverKey, h2) \<Rightarrow>
               (case Hex_parse_at key h2 of
                  (publicKey, h3) \<Rightarrow>
                    (case HmacSHA256_at L (ObjArg publicKey) (ObjArg serverKey) h3 of
                       (signature, h4) \<Rightarrow> ((Inr (Hex_stringify (h4 ! signature)), [], this), h4)))))"

fun do_call_at ::
  "cryptojs \<Rightarrow> bool \<Rightarrow> call \<Rightarrow> HwScramAuth \<Rightarrow> store \<Rightarrow>
   ((js_error + string) \<times> string list \<times> HwScramAuth) \<times> store" where
  "do_call_at L doc CalcProof this h = calcProof_at L doc this h"
| "do_call_at L doc CalcServerProof this h = calcServerProof_at L this h"
| "do_call_at L doc (CalcPubSig key) this h = calcPubSig_at L this key h"

fun run_calls_at ::
  "cryptojs \<Rightarrow> bool \<Rightarrow> call list \<Rightarrow> HwScramAuth \<Rightarrow> store \<Rightarrow>
   ((js_error + string) list \<times> HwScramAuth) \<times> store" where
  "run_calls_at L doc [] this h = (([], this), h)"
| "run_calls_at L doc (c # cs) this h =
     (case do_call_at L doc c this h of
        ((r, out, this'), h') \<Rightarrow>
          (case run_calls_at L doc cs this' h' of
             ((rs, this''), h'') \<Rightarrow> ((r # rs, this''), h'')))"

section \<open>Properties of the data\<close>

text \<open>
  The shape of a SHA-256 digest: 8 words, 32 significant bytes. CryptoJS returns such
  an array from \<open>HmacSHA256\<close>; the theorems that depend on it assume it of the
  parameter.
\<close>

definition digest32 :: "WordArray \<Rightarrow> bool" where
  "digest32 w = (sigBytes w = 32 \<and> length (words w) = 8)"

definition hmac_sha256_digests :: "cryptojs \<Rightarrow> bool" where
  "hmac_sha256_digests L = (\<forall>m k. digest32 (HmacSHA256 L m k))"

text \<open>An array whose significant bytes are exactly its words.\<close>

definition word_aligned :: "WordArray \<Rightarrow> bool" where
  "word_aligned w = (sigBytes w = of_nat (4 * length (words w)))"

definition hexchar :: "char \<Rightarrow> bool" where
  "hexchar c = (c \<in> set ''0123456789abcdef'')"

text \<open>
  The significant bytes of an array, most significant byte of each word first, and
  the hex string of a list of bytes; \<open>Hex.stringify\<close> is the one after the other.
\<close>

definition bytes_of :: "WordArray \<Rightarrow> 32 word list" where
  "bytes_of w = map (byteAt (words w)) [0..<nat \<lceil>sigBytes w\<rceil>]"

definition hex_of_bytes :: "32 word list \<Rightarrow> string" where
  "hex_of_bytes bs = concat (map hexByte bs)"

definition is_byte :: "32 word \<Rightarrow> bool" where
  "is_byte b = (b AND 0xff = b)"

text \<open>The eight hex digits of one word, most significant byte first.\<close>

definition hexWord :: "32 word \<Rightarrow> string" where
  "hexWord x = hexByte (drop_bit 24 x AND 0xff) @ hexByte (drop_bit 16 x AND 0xff) @
     hexByte (drop_bit 8 x AND 0xff) @ hexByte (x AND 0xff)"

text \<open>
  The key that \<open>deriveKey\<close> returns once the parameters are set, written out: PBKDF2
  over the password and the decoded salt, then HMAC-SHA256 with that secret as the
  message and the label as the key.
\<close>

definition derived_key :: "cryptojs \<Rightarrow> string \<Rightarrow> string \<Rightarrow> number \<Rightarrow> string \<Rightarrow> WordArray" where
  "derived_key L password saltHex its label =
     HmacSHA256 L
       (WA (PBKDF2 L (Str password) (WA (Hex_parse saltHex))
              \<lparr>hasher = SHA256, iterations = Some its, keySize = 8\<rparr>))
       (Str label)"

text \<open>
  A stand-in for the hash functions, to run the model on concrete inputs. It has the
  shape of the real functions (digests of 8 words, a derived key of \<open>keySize\<close>
  words) and tells message from key, but it is not a hash.
\<close>

fun input_seed :: "input \<Rightarrow> 32 word" where
  "input_seed (Str s) = foldr (\<lambda>c h. h + 131) s (case s of [] \<Rightarrow> 0 | c # _ \<Rightarrow> of_char c)"
| "input_seed (WA w) = word_of_nat (length (words w)) + js_get (words w) 0"
| "input_seed Undefined = 0"

definition test_cryptojs :: cryptojs where
  "test_cryptojs =
     \<lparr>PBKDF2 = (\<lambda>p s c.
        \<lparr>words = map (\<lambda>i. input_seed p * 7 + input_seed s * 3 + word_of_nat i) [0..<keySize c],
         sigBytes = of_nat (4 * keySize c)\<rparr>),
      HmacSHA256 = (\<lambda>m k.
        \<lparr>words = map (\<lambda>i. input_seed m * 65537 + input_seed k * 257 + word_of_nat i * 16843009)
                   [0..<8],
         sigBytes = 32\<rparr>),
      SHA256_finalize = (\<lambda>xs.
        \<lparr>words = map (\<lambda>i. sum_list (map input_seed xs) * 4099 + word_of_nat i) [0..<8],
         sigBytes = 32\<rparr>)\<rparr>"

section \<open>HwEndpoints\<close>

definition TOKEN :: string where
  "TOKEN = ''/api/webserver/token''"

definition SCRAM_PHASE_ONE :: string where
  "SCRAM_PHASE_ONE = ''/api/user/challenge_login''"

definition SCRAM_PHASE_TWO :: string where
  "SCRAM_PHASE_TWO = ''/api/user/authentication_login''"

definition REBOOT :: string where
  "REBOOT = ''/api/device/control''"

section \<open>Transport, XML parser and page\<close>

text \<open>
  An axios request and the response it is answered with. axios gives the names of the
  response headers in lower case; a header that the response lacks reads as
  \<open>undefined\<close>. The promise of a request is rejected (\<open>NoReply\<close>) on a network
  error and on a status outside 200 to 299.
\<close>

record request =
  http_method :: string
  url :: string
  req_headers :: "(string \<times> string option) list"
  req_data :: "string option"
  responseType :: string

record response =
  statusText :: string
  resp_headers :: "string \<rightharpoonup> string"
  data :: string

datatype reply = Reply response | NoReply js_error

text \<open>
  What \<open>xml2js.parseString\<close> hands to its callback. A parsed document is the name of
  its root element and, for each name of a child element, the texts of the children of
  that name, the first one apart (xml2js collects them in a non-empty array); the
  model covers children that hold text only. For an empty body the callback gets
  \<open>(null, null)\<close>, on a parse error \<open>(err, undefined)\<close>.

  An exception thrown by the callback leaves \<open>parseString\<close> and reaches its caller,
  after a parsed document as after an empty body and a parse error.
\<close>

datatype xml2js =
    ParseError js_error
  | ParseNull
  | Doc string "string \<rightharpoonup> string \<times> string list"

text \<open>An array of strings in a string concatenation: its elements joined by commas.\<close>

fun array_toString :: "string list \<Rightarrow> string" where
  "array_toString [] = []"
| "array_toString [x] = x"
| "array_toString (x # y # ys) = x @ '','' @ array_toString (y # ys)"

text \<open>
  What one run of \<open>login\<close> meets in its surroundings: the value drawn by
  \<open>CryptoJS.lib.WordArray.random(32)\<close>, the XML parser, whether \<open>window\<close> and
  \<open>document\<close> are defined (a browser) or not (node), and the content of
  \<open>window.localStorage\<close> before the call. Where \<open>document\<close> is defined the page
  is taken to contain the \<open>h2\<close> and \<open>code\<close> elements that the script writes to.
\<close>

record env =
  random32 :: WordArray
  parseXmlStr :: "string \<Rightarrow> xml2js"
  has_window :: bool
  has_document :: bool
  stored :: "string \<rightharpoonup> string"

datatype effect = ConsoleLog string | ConsoleError string | InnerText string string

text \<open>The replies of the device to the four requests of a login, in their order.\<close>

record replies =
  root_reply :: reply
  token_reply :: reply
  challenge_reply :: reply
  authentication_reply :: reply

section \<open>HwRequest\<close>

record HwRequest =
  xmlStr :: string
  uri :: string
  headers :: "(string \<times> string option) list"

definition new_HwRequest :: "string \<Rightarrow> (string \<times> string option) list \<Rightarrow> HwRequest" where
  \<open>new_HwRequest u h =
     \<lparr>xmlStr = ''<?xml version="1.0" encoding="utf-8"?><request>'', uri = u, headers = h\<rparr>\<close>

definition add :: "HwRequest \<Rightarrow> string \<Rightarrow> string \<Rightarrow> HwRequest" where
  "add this node content =
     (let openTag = ''<'' @ node @ ''>'';
          closeTag = ''</'' @ node @ ''>''
      in this\<lparr>xmlStr := xmlStr this @ openTag @ content @ closeTag\<rparr>)"

text \<open>\<open>send\<close>: the request that \<open>axios.post\<close> is called with.\<close>

definition send :: "HwRequest \<Rightarrow> request" where
  "send this =
     (let body = xmlStr this @ ''</request>''
      in \<lparr>http_method = ''post'', url = uri this, req_headers = headers this, req_data = Some body,
          responseType = ''text''\<rparr>)"


section \<open>HwApi\<close>

record HwApi =
  authPwd :: string
  authUser :: string
  server :: string
  sessionId :: "string option"

definition new_HwApi :: "string \<Rightarrow> string \<Rightarrow> string \<Rightarrow> HwApi" where
  "new_HwApi srv user p =
     \<lparr>authPwd = p, authUser = user, server = ''http://'' @ srv, sessionId = None\<rparr>"

definition DEFAULT_GETOPTS :: "string \<Rightarrow> request" where
  "DEFAULT_GETOPTS u =
     \<lparr>http_method = ''get'', url = u, req_headers = [], req_data = None, responseType = ''text''\<rparr>"

text \<open>\<open>generateNonce\<close> of HwScramAuth: the hex string of the random words.\<close>

definition generateNonce :: "env \<Rightarrow> string" where
  "generateNonce E = Hex_stringify (random32 E)"

text \<open>
  A promise is fulfilled with a value, rejected with an error, or still pending. The
  first call of \<open>res\<close> or \<open>rej\<close> settles it; a later call, and an exception that
  leaves the executor later, change nothing.
\<close>

datatype 'a promise = Fulfilled 'a | Rejected js_error | Pending

definition settle :: "'a promise \<Rightarrow> 'a promise \<Rightarrow> 'a promise" where
  "settle first later = (case first of Pending \<Rightarrow> later | _ \<Rightarrow> first)"

text \<open>
  The variables that the callbacks of \<open>login\<close> share (\<open>firstNonce\<close> and
  \<open>finalNonce\<close> are \<open>clientNonce\<close> and \<open>serverNonce\<close> in the source, named here
  after the request fields that carry them), with the local storage, the requests sent
  so far and what was written to the console and the page.
\<close>

record login_vars =
  scram :: HwScramAuth
  firstNonce :: string
  finalNonce :: "string option"
  veriToken :: "string option"
  localStorage :: "string \<rightharpoonup> string"
  sent :: "request list"
  written :: "effect list"

text \<open>\<open>p.then(f)\<close>: \<open>f\<close> runs on the value of a fulfilled promise only.\<close>

definition then_do ::
  "login_vars \<times> 'a promise \<Rightarrow> (login_vars \<Rightarrow> 'a \<Rightarrow> login_vars \<times> 'b promise) \<Rightarrow>
   login_vars \<times> 'b promise" where
  "then_do vp f =
     (case vp of
        (v, Fulfilled x) \<Rightarrow> f v x
      | (v, Rejected e) \<Rightarrow> (v, Rejected e)
      | (v, Pending) \<Rightarrow> (v, Pending))"

definition post :: "login_vars \<Rightarrow> HwRequest \<Rightarrow> reply \<Rightarrow> login_vars \<times> response promise" where
  "post v rq r =
     (v\<lparr>sent := sent v @ [send rq]\<rparr>,
      case r of NoReply e \<Rightarrow> Rejected e | Reply rsp \<Rightarrow> Fulfilled rsp)"

definition initSession :: "HwApi \<Rightarrow> reply \<Rightarrow> login_vars \<Rightarrow> login_vars \<times> bool promise" where
  "initSession this r v =
     (v\<lparr>sent := sent v @ [DEFAULT_GETOPTS (server this)]\<rparr>,
      case r of
        NoReply e \<Rightarrow> Rejected e
      | Reply rsp \<Rightarrow> Fulfilled (statusText rsp = ''OK''))"

text \<open>
  \<open>getServerToken\<close>: the callback reads \<open>result.response.token\<close>, an array or
  \<open>undefined\<close>, and throws a TypeError where \<open>result\<close> or \<open>result.response\<close> is
  not an object (it does not look at \<open>err\<close>); the TypeError rejects the promise that
  \<open>await\<close> waits for, and with it the promise of \<open>getServerToken\<close>.
\<close>

definition getServerToken ::
  "env \<Rightarrow> HwApi \<Rightarrow> reply \<Rightarrow> login_vars \<Rightarrow> login_vars \<times> (string \<times> string list) option promise" where
  "getServerToken E this r v =
     (v\<lparr>sent := sent v @ [DEFAULT_GETOPTS (server this @ TOKEN)]\<rparr>,
      case r of
        NoReply e \<Rightarrow> Rejected e
      | Reply rsp \<Rightarrow>
          (case parseXmlStr E (data rsp) of
             ParseError e \<Rightarrow> Rejected (TypeError ''Cannot read properties of undefined'')
           | ParseNull \<Rightarrow> Rejected (TypeError ''Cannot read properties of undefined'')
           | Doc rootName children \<Rightarrow>
               if rootName = ''response'' then Fulfilled (children ''token'')
               else Rejected (TypeError ''Cannot read properties of undefined'')))"

text \<open>The callbacks of the chain in \<open>login\<close>, in their order.\<close>

definition thenSession ::
  "env \<Rightarrow> HwApi \<Rightarrow> reply \<Rightarrow> login_vars \<Rightarrow> bool \<Rightarrow>
   login_vars \<times> (string \<times> string list) option promise" where
  "thenSession E this r v ok =
     (if ok then getServerToken E this r v
      else (v, Rejected (Error ''Session failed to initialize'')))"

definition thenToken ::
  "HwApi \<Rightarrow> reply \<Rightarrow> login_vars \<Rightarrow> (string \<times> string list) option \<Rightarrow>
   login_vars \<times> response promise" where
  "thenToken this r v token =
     (case token of
        None \<Rightarrow> (v, Rejected (TypeError ''Cannot read properties of undefined''))
      | Some (token0, _) \<Rightarrow>
          (let u = server this @ SCRAM_PHASE_ONE;
               scramOne = new_HwRequest u
                 [(''Content-Type'', Some ''text/html''),
                  (''__RequestVerificationToken'', Some (drop 32 token0))];
               scramOne = add scramOne ''username'' (authUser this);
               scramOne = add scramOne ''firstnonce'' (firstNonce v);
               scramOne = add scramOne ''mode'' ''1''
           in post v scramOne r))"

definition thenChallengeReply :: "login_vars \<Rightarrow> response \<Rightarrow> login_vars \<times> string promise" where
  "thenChallengeReply v scramReply =
     (let v = v\<lparr>veriToken := resp_headers scramReply ''__requestverificationtoken''\<rparr>
      in if veriToken v = None
         then (v, Rejected (Error ''Server did not supply verification token''))
         else (v, Fulfilled (data scramReply)))"

text \<open>
  The callback of the first \<open>parseXmlStr\<close>. Its first step reads \<open>result.error\<close>,
  a TypeError where \<open>result\<close> is not an object (an empty body, a parse error), which
  leaves the executor and rejects the promise; \<open>rej(err)\<close> is not reached then. After
  \<open>rej\<close> the callback goes on (there is no \<open>return\<close>): \<open>challenge_params\<close> is the
  part from the comment "Save SCRAM parameters" on, whose exceptions leave the executor
  as well.
\<close>

definition challenge_params ::
  "cryptojs \<Rightarrow> env \<Rightarrow> login_vars \<Rightarrow> (string \<rightharpoonup> string \<times> string list) option \<Rightarrow>
   login_vars \<times> string promise" where
  "challenge_params L E v resp =
     (case resp of
        None \<Rightarrow> (v, Rejected (TypeError ''Cannot read properties of undefined''))
      | Some children \<Rightarrow>
          (case children ''servernonce'' of
             None \<Rightarrow> (v, Rejected (TypeError ''Cannot read properties of undefined''))
           | Some (nonce, _) \<Rightarrow>
               (let v = v\<lparr>finalNonce := Some nonce\<rparr>
                in case children ''salt'' of
                     None \<Rightarrow> (v, Rejected (TypeError ''Cannot read properties of undefined''))
                   | Some (slt, _) \<Rightarrow>
                       (case children ''iterations'' of
                          None \<Rightarrow> (v, Rejected (TypeError ''Cannot read properties of undefined''))
                        | Some (its, _) \<Rightarrow>
                            (let count = parseInt its 10;
                                 s = setParams (scram v) (firstNonce v) nonce slt count
                             in case calcProof L (has_document E) s of
                                  (r, lines, s') \<Rightarrow>
                                    (let v = v\<lparr>scram := s',
                                               written := written v @ map ConsoleLog lines\<rparr>
                                     in case r of
                                          Inl e \<Rightarrow>
                                            (v, Rejected (Error (''Failed to generate client proof. '' @
                                                                 error_toString e)))
                                        | Inr loginProof \<Rightarrow> (v, Fulfilled loginProof)))))))"

definition thenChallengeBody ::
  "cryptojs \<Rightarrow> env \<Rightarrow> login_vars \<Rightarrow> string \<Rightarrow> login_vars \<times> string promise" where
  "thenChallengeBody L E v responseStr =
     (case parseXmlStr E responseStr of
        ParseError err \<Rightarrow> (v, Rejected (TypeError ''Cannot read properties of undefined''))
      | ParseNull \<Rightarrow> (v, Rejected (TypeError ''Cannot read properties of undefined''))
      | Doc rootName children \<Rightarrow>
          (let first =
                 (if rootName = ''error''
                  then Rejected (Error (''Too many incorrect login attempts, try again in '' @
                         (case children ''waittime'' of
                            None \<Rightarrow> ''undefined''
                          | Some (w, ws) \<Rightarrow> array_toString (w # ws)) @ '' minutes.''))
                  else Pending)
           in case challenge_params L E v (if rootName = ''response'' then Some children else None) of
                (v', later) \<Rightarrow> (v', settle first later)))"

definition thenLoginProof ::
  "HwApi \<Rightarrow> reply \<Rightarrow> login_vars \<Rightarrow> string \<Rightarrow> login_vars \<times> response promise" where
  "thenLoginProof this r v loginProof =
     (let u = server this @ SCRAM_PHASE_TWO;
          scramTwo = new_HwRequest u
            [(''Content-Type'', Some ''application/x-www-form-urlencoded; charset=UTF-8''),
             (''__RequestVerificationToken'', veriToken v)];
          scramTwo = add scramTwo ''clientproof'' loginProof;
          scramTwo = add scramTwo ''finalnonce'' (str_of (finalNonce v))
      in post v scramTwo r)"

definition thenAuthenticationReply :: "login_vars \<Rightarrow> response \<Rightarrow> login_vars \<times> string promise" where
  "thenAuthenticationReply v scramReply =
     (case resp_headers scramReply ''__requestverificationtokenone'' of
        Some t \<Rightarrow>
          (v\<lparr>veriToken := Some t,
             written := written v @ [ConsoleLog (''Logged in successfully: '' @ t)]\<rparr>,
           Fulfilled (data scramReply))
      | None \<Rightarrow>
          if veriToken v = None
          then (v, Rejected (Error ''Server did not supply new verification token''))
          else (v, Fulfilled (data scramReply)))"

text \<open>
  The \<open>try\<close> block of the second \<open>parseXmlStr\<close> callback with its \<open>catch\<close>; no
  branch calls \<open>res\<close>, so the promise stays pending where the server is accepted.
\<close>

definition server_proof_failed :: "js_error \<Rightarrow> unit promise" where
  "server_proof_failed e = Rejected (Error (''Failed to generate server proof. '' @ error_toString e))"

definition verify_server ::
  "cryptojs \<Rightarrow> env \<Rightarrow> login_vars \<Rightarrow> (string \<rightharpoonup> string \<times> string list) option \<Rightarrow>
   login_vars \<times> unit promise" where
  "verify_server L E v resp =
     (case calcServerProof L (scram v) of
        (r, _, s') \<Rightarrow>
          (let v = v\<lparr>scram := s'\<rparr>
           in case r of
                Inl e \<Rightarrow> (v, server_proof_failed e)
              | Inr calcd \<Rightarrow>
                  (case resp of
                     None \<Rightarrow> (v, server_proof_failed (TypeError ''Cannot read properties of undefined''))
                   | Some children \<Rightarrow>
                       (case children ''serversignature'' of
                          None \<Rightarrow>
                            (v, server_proof_failed (TypeError ''Cannot read properties of undefined''))
                        | Some (resProof, _) \<Rightarrow>
                            if calcd = resProof
                            then
                              (case (children ''rsapubkeysignature'', children ''rsan'') of
                                 (Some (serverSig, _), Some (pubKey, _)) \<Rightarrow>
                                   (case calcPubSig L (scram v) pubKey of
                                      (r2, _, s2) \<Rightarrow>
                                        (let v = v\<lparr>scram := s2\<rparr>
                                         in case r2 of
                                              Inl e \<Rightarrow> (v, server_proof_failed e)
                                            | Inr pubKeySig \<Rightarrow>
                                                if serverSig = pubKeySig
                                                then
                                                  (if \<not> has_window E
                                                   then (v, server_proof_failed
                                                              (ReferenceError ''window is not defined''))
                                                   else
                                                     (case children ''rsae'' of
                                                        None \<Rightarrow>
                                                          (v, server_proof_failed
                                                                (TypeError ''Cannot read properties of undefined''))
                                                      | Some (rsaE, _) \<Rightarrow>
                                                          (let rsaN = pubKey;
                                                               v = v\<lparr>localStorage :=
                                                                       (localStorage v)(''rsan'' \<mapsto> rsaN, ''rsae'' \<mapsto> rsaE)\<rparr>;
                                                               v = v\<lparr>written := written v @
                                                                     (if has_document E
                                                                      then [InnerText ''h2'' ''Logged in!'',
                                                                            InnerText ''code''
                                                                              (''rsan='' @ rsaN @ '', rsae='' @ rsaE)]
                                                                      else [ConsoleLog ''Server identity successfully verified.''])\<rparr>
                                                           in (v, Pending))))
                                                else (v, Rejected (Error ''Server provided an invalid RSA public key.''))))
                               | _ \<Rightarrow>
                                   (v, server_proof_failed (TypeError ''Cannot read properties of undefined'')))
                            else (v, Rejected (Error ''Could not verify server identity.''))))))"

definition thenAuthenticationBody ::
  "cryptojs \<Rightarrow> env \<Rightarrow> login_vars \<Rightarrow> string \<Rightarrow> login_vars \<times> unit promise" where
  "thenAuthenticationBody L E v text =
     (case parseXmlStr E text of
        ParseError err \<Rightarrow>
          (case verify_server L E v None of
             (v', later) \<Rightarrow>
               (v', settle (Rejected (Error (''SCRAM auth failed. '' @ error_toString err))) later))
      | ParseNull \<Rightarrow> verify_server L E v None
      | Doc rootName children \<Rightarrow>
          verify_server L E v (if rootName = ''response'' then Some children else None))"

definition catchError :: "env \<Rightarrow> login_vars \<Rightarrow> js_error \<Rightarrow> login_vars" where
  "catchError E v error =
     (let errHead = ''Error while logging in'';
          errMsg = error_message error
      in v\<lparr>written := written v @
            (if has_document E
             then [InnerText ''h2'' errHead, InnerText ''code'' errMsg]
             else [ConsoleError (errHead @ '': '' @ errMsg)])\<rparr>)"

text \<open>
  \<open>login\<close>. Its synchronous part creates the object, draws the nonce, starts
  \<open>initSession\<close> (which sends the first request) and registers the callbacks; none
  of them runs before \<open>login\<close> has returned, so \<open>returned\<close> is the value that
  \<open>veriToken\<close> has then. The chain runs afterwards; it is written in three parts, cut
  at the two responses of the SCRAM exchange. \<open>attempt\<close> is the promise that
  \<open>catch\<close> is attached to, \<open>final\<close> the variables once the chain has come to rest.
\<close>

definition login_start :: "env \<Rightarrow> HwApi \<Rightarrow> login_vars" where
  "login_start E this =
     \<lparr>scram = new_HwScramAuth (authPwd this), firstNonce = generateNonce E, finalNonce = None,
      veriToken = None, localStorage = stored E, sent = [], written = []\<rparr>"

definition chain_challenge :: "env \<Rightarrow> replies \<Rightarrow> HwApi \<Rightarrow> login_vars \<times> response promise" where
  "chain_challenge E net this =
     then_do (then_do (initSession this (root_reply net) (login_start E this))
                (thenSession E this (token_reply net)))
       (thenToken this (challenge_reply net))"

definition chain_authentication ::
  "cryptojs \<Rightarrow> env \<Rightarrow> replies \<Rightarrow> HwApi \<Rightarrow> login_vars \<times> response promise" where
  "chain_authentication L E net this =
     then_do (then_do (then_do (chain_challenge E net this) thenChallengeReply)
                (thenChallengeBody L E))
       (thenLoginProof this (authentication_reply net))"

definition chain_verified ::
  "cryptojs \<Rightarrow> env \<Rightarrow> replies \<Rightarrow> HwApi \<Rightarrow> login_vars \<times> unit promise" where
  "chain_verified L E net this =
     then_do (then_do (chain_authentication L E net this) thenAuthenticationReply)
       (thenAuthenticationBody L E)"

record login_run =
  returned :: "string option"
  attempt :: "unit promise"
  final :: login_vars

definition login :: "cryptojs \<Rightarrow> env \<Rightarrow> replies \<Rightarrow> HwApi \<Rightarrow> login_run" where
  "login L E net this =
     (let started = fst (initSession this (root_reply net) (login_start E this));
          result = veriToken started;
          chain = chain_verified L E net this
      in \<lparr>returned = result,
          attempt = snd chain,
          final = (case chain of (v, Rejected e) \<Rightarrow> catchError E v e | (v, _) \<Rightarrow> v)\<rparr>)"

definition fulfilled :: "'a promise \<Rightarrow> bool" where
  "fulfilled p = (case p of Fulfilled _ \<Rightarrow> True | _ \<Rightarrow> False)"

section \<open>A device to run the model against\<close>

definition test_api :: HwApi where
  "test_api = new_HwApi ''192.168.8.1'' ''admin'' ''admin''"

definition token_body :: string where
  "token_body = ''<response><token>0123456789abcdef0123456789abcdefTOKEN0</token></response>''"

definition challenge_body :: string where
  "challenge_body =
     ''<response><salt>aabb</salt><servernonce>s1</servernonce><iterations>1000</iterations></response>''"

definition waittime_body :: string where
  "waittime_body = ''<error><code>108007</code><waittime>5</waittime></error>''"

definition authentication_body :: string where
  "authentication_body =
     ''<response><serversignature>a009b116a10ab217a20bb318a30cb419a40db51aa50eb61ba60fb71ca710b81d</serversignature><rsapubkeysignature>955d8d15965e8e16975f8f1798609018996191199a62921a9b63931b9c64941c</rsapubkeysignature><rsan>c0ffee</rsan><rsae>010001</rsae></response>''"

definition corrupted_body :: string where
  "corrupted_body =
     ''<response><serversignature>a009b116a10ab217a20bb318a30cb419a40db51aa50eb61ba60fb71ca710b81d</serversignature><rsapubkeysignature>955d8d15965e8e16975f8f1798609018996191199a62921a9b63931b9c64941d</rsapubkeysignature><rsan>c0ffee</rsan><rsae>010001</rsae></response>''"

definition unsigned_body :: string where
  "unsigned_body =
     ''<response><rsapubkeysignature>955d8d15965e8e16975f8f1798609018996191199a62921a9b63931b9c64941d</rsapubkeysignature><rsan>c0ffee</rsan><rsae>010001</rsae></response>''"

definition test_parseXmlStr :: "string \<Rightarrow> xml2js" where
  "test_parseXmlStr s =
     (if s = token_body
      then Doc ''response'' [''token'' \<mapsto> (''0123456789abcdef0123456789abcdefTOKEN0'', [])]
      else if s = challenge_body
      then Doc ''response''
             [''salt'' \<mapsto> (''aabb'', []), ''servernonce'' \<mapsto> (''s1'', []),
              ''iterations'' \<mapsto> (''1000'', [])]
      else if s = waittime_body
      then Doc ''error'' [''code'' \<mapsto> (''108007'', []), ''waittime'' \<mapsto> (''5'', [])]
      else if s = authentication_body
      then Doc ''response''
             [''serversignature'' \<mapsto>
                (''a009b116a10ab217a20bb318a30cb419a40db51aa50eb61ba60fb71ca710b81d'', []),
              ''rsapubkeysignature'' \<mapsto>
                (''955d8d15965e8e16975f8f1798609018996191199a62921a9b63931b9c64941c'', []),
              ''rsan'' \<mapsto> (''c0ffee'', []), ''rsae'' \<mapsto> (''010001'', [])]
      else if s = corrupted_body
      then Doc ''response''
             [''serversignature'' \<mapsto>
                (''a009b116a10ab217a20bb318a30cb419a40db51aa50eb61ba60fb71ca710b81d'', []),
              ''rsapubkeysignature'' \<mapsto>
                (''955d8d15965e8e16975f8f1798609018996191199a62921a9b63931b9c64941d'', []),
              ''rsan'' \<mapsto> (''c0ffee'', []), ''rsae'' \<mapsto> (''010001'', [])]
      else if s = unsigned_body
      then Doc ''response''
             [''rsapubkeysignature'' \<mapsto>
                (''955d8d15965e8e16975f8f1798609018996191199a62921a9b63931b9c64941d'', []),
              ''rsan'' \<mapsto> (''c0ffee'', []), ''rsae'' \<mapsto> (''010001'', [])]
      else if s = [] then ParseNull
      else ParseError (Error ''Non-whitespace before first tag.''))"

definition test_env :: env where
  "test_env =
     \<lparr>random32 = \<lparr>words = [1, 2, 3, 4, 5, 6, 7, 8], sigBytes = 32\<rparr>,
      parseXmlStr = test_parseXmlStr, has_window = True, has_document = True,
      stored = Map.empty\<rparr>"

definition ok_reply :: "(string \<rightharpoonup> string) \<Rightarrow> string \<Rightarrow> reply" where
  "ok_reply h b = Reply \<lparr>statusText = ''OK'', resp_headers = h, data = b\<rparr>"

definition test_net :: replies where
  "test_net =
     \<lparr>root_reply = ok_reply Map.empty ''<html></html>'',
      token_reply = ok_reply Map.empty token_body,
      challenge_reply = ok_reply [''__requestverificationtoken'' \<mapsto> ''VT1''] challenge_body,
      authentication_reply =
        ok_reply [''__requestverificationtokenone'' \<mapsto> ''VT2''] authentication_body\<rparr>"

text \<open>
  \<open>result.response\<close> where it is an object, and the two comparisons of the second
  phase: the received \<open>serversignature\<close> is the computed server proof, and the
  received \<open>rsapubkeysignature\<close> is the computed signature of \<open>rsan\<close>.
\<close>

definition response_of :: "xml2js \<Rightarrow> (string \<rightharpoonup> string \<times> string list) option" where
  "response_of parsed =
     (case parsed of
        Doc rootName children \<Rightarrow> if rootName = ''response'' then Some children else None
      | _ \<Rightarrow> None)"

definition signatures_match ::
  "cryptojs \<Rightarrow> HwScramAuth \<Rightarrow> (string \<rightharpoonup> string \<times> string list) option \<Rightarrow> bool" where
  "signatures_match L s resp =
     (case resp of
        None \<Rightarrow> False
      | Some children \<Rightarrow>
          (case (children ''serversignature'', children ''rsapubkeysignature'', children ''rsan'') of
             (Some (resProof, _), Some (serverSig, _), Some (pubKey, _)) \<Rightarrow>
               fst (calcServerProof L s) = Inr resProof \<and>
               fst (calcPubSig L s pubKey) = Inr serverSig
           | _ \<Rightarrow> False))"

definition both_signatures_match :: "cryptojs \<Rightarrow> env \<Rightarrow> replies \<Rightarrow> HwApi \<Rightarrow> bool" where
  "both_signatures_match L E net this =
     (case chain_authentication L E net this of
        (v, Fulfilled scramReply) \<Rightarrow>
          signatures_match L (scram v) (response_of (parseXmlStr E (data scramReply)))
      | _ \<Rightarrow> False)"



definition no_token_net :: replies where
  "no_token_net = test_net\<lparr>challenge_reply := ok_reply Map.empty challenge_body\<rparr>"

definition corrupted_net :: replies where
  "corrupted_net =
     test_net\<lparr>authentication_reply :=
                ok_reply [''__requestverificationtokenone'' \<mapsto> ''VT2''] corrupted_body\<rparr>"

definition unsigned_net :: replies where
  "unsigned_net =
     test_net\<lparr>authentication_reply :=
                ok_reply [''__requestverificationtokenone'' \<mapsto> ''VT2''] unsigned_body\<rparr>"

section \<open>The XOR loop\<close>

lemma xor_loop_upt:
  "k \<le> n \<Longrightarrow> n \<le> length ws \<Longrightarrow>
   xor_loop [k..<n] ws sg =
     take k ws @ map (\<lambda>i. ws ! i XOR js_get sg i) [k..<n] @ drop n ws"
proof (induction "n - k" arbitrary: k ws)
  case 0
  then show ?case by simp
next
  case (Suc d)
  then have kn: "k < n" by simp
  have step: "xor_loop [k..<n] ws sg =
      xor_loop [Suc k..<n] (ws[k := ws ! k XOR js_get sg k]) sg"
    using kn Suc.prems by (simp add: upt_conv_Cons js_set_def js_get_def)
  have "d = n - Suc k" using Suc.hyps by simp
  from Suc.hyps(1)[OF this, of "ws[k := ws ! k XOR js_get sg k]"] kn Suc.prems
  have "xor_loop [Suc k..<n] (ws[k := ws ! k XOR js_get sg k]) sg =
     take (Suc k) (ws[k := ws ! k XOR js_get sg k]) @
     map (\<lambda>i. (ws[k := ws ! k XOR js_get sg k]) ! i XOR js_get sg i) [Suc k..<n] @
     drop n (ws[k := ws ! k XOR js_get sg k])"
    by simp
  also have "\<dots> = take k ws @ map (\<lambda>i. ws ! i XOR js_get sg i) [k..<n] @ drop n ws"
    using kn Suc.prems
    by (simp add: upt_conv_Cons take_Suc_conv_app_nth)
  finally show ?case using step by simp
qed

lemma xor_loop_full:
  "length ws = n \<Longrightarrow> length sg = n \<Longrightarrow> xor_loop [0..<n] ws sg = map2 (XOR) ws sg"
  by (simp add: xor_loop_upt js_get_def list_eq_iff_nth_eq)

lemma array_keys_8: "array_keys 8 = Inr [0..<8]"
  by (simp add: array_keys_def)

lemma xor_in_place_32:
  "digest32 ck \<Longrightarrow> digest32 sg \<Longrightarrow>
   xor_in_place ck sg = Inr (ck\<lparr>words := map2 (XOR) (words ck) (words sg)\<rparr>)"
  by (simp add: xor_in_place_def digest32_def array_keys_8 xor_loop_full)



section \<open>Hex encoding and decoding\<close>


lemma hexDigit_table:
  "list_all (\<lambda>n. digit_value (''0123456789abcdef'' ! n) = Some n \<and>
                   hexchar (''0123456789abcdef'' ! n)) [0..<16]"
  by code_simp

lemma hexDigit_entry:
  assumes "unat d < 16"
  shows "digit_value (hexDigit d) = Some (unat d) \<and> hexchar (hexDigit d)"
proof -
  have "unat d \<in> set [0..<16]" using assms by simp
  then show ?thesis
    using hexDigit_table unfolding list_all_iff hexDigit_def by blast
qed

lemma digit_value_hexDigit:
  "unat d < 16 \<Longrightarrow> digit_value (hexDigit d) = Some (unat d)"
  by (simp add: hexDigit_entry)

lemma hexchar_hexDigit:
  "unat d < 16 \<Longrightarrow> hexchar (hexDigit d)"
  by (simp add: hexDigit_entry)

lemma hexchar_props:
  assumes "hexchar c"
  shows "\<not> js_whitespace c" "c \<noteq> CHR ''-''" "c \<noteq> CHR ''+''" "c \<noteq> CHR ''x''" "c \<noteq> CHR ''X''"
    "is_digit 16 c"
  using assms
  by (auto simp: hexchar_def js_whitespace_def is_digit_def digit_value_def)

lemma bit_length_le: "n < 2 ^ k \<Longrightarrow> bit_length n \<le> k"
proof (induction k arbitrary: n)
  case 0
  then show ?case by (simp add: bit_length.simps)
next
  case (Suc k)
  show ?case
  proof (cases "n = 0")
    case True
    then show ?thesis by (simp add: bit_length.simps)
  next
    case False
    have "n div 2 < 2 ^ k" using Suc.prems by simp
    from Suc.IH [OF this] False show ?thesis by (subst bit_length.simps) simp
  qed
qed

lemma to_double_exact: "n < 2 ^ 53 \<Longrightarrow> to_double n = Some n"
proof -
  assume "n < 2 ^ 53"
  then have b: "bit_length n \<le> 53" by (rule bit_length_le)
  then have e: "bit_length n - 53 = 0" by simp
  show ?thesis
    unfolding to_double_def e Let_def using b by simp
qed

lemma hexchar_digit: "hexchar c \<Longrightarrow> the (digit_value c) < 16"
  by (auto simp: hexchar_def digit_value_def)

lemma parseInt_two_hexchars:
  assumes "hexchar a" "hexchar b"
  shows "parseInt [a, b] 16 = Num (int (the (digit_value a) * 16 + the (digit_value b)))"
proof -
  have "the (digit_value a) * 16 + the (digit_value b) < 2 ^ 53"
    using hexchar_digit [OF assms(1)] hexchar_digit [OF assms(2)] by simp
  then have "to_double (the (digit_value a) * 16 + the (digit_value b)) =
      Some (the (digit_value a) * 16 + the (digit_value b))"
    by (rule to_double_exact)
  then show ?thesis
    using hexchar_props[OF assms(1)] hexchar_props[OF assms(2)]
    by (simp add: parseInt_def digits_value_def Let_def)
qed

lemma unat_and_255: "unat ((x :: 32 word) AND 0xff) \<le> 255"
  using word_and_le1 [of x "0xff", THEN word_le_nat_alt [THEN iffD1]] by simp

lemma unat_and_15: "unat ((x :: 32 word) AND 0x0f) < 16"
  using word_and_le1 [of x "0x0f", THEN word_le_nat_alt [THEN iffD1]] by simp

lemma unat_hi_nibble: "unat (drop_bit 4 ((x :: 32 word) AND 0xff)) < 16"
proof -
  have "unat (drop_bit 4 (x AND 0xff)) = unat (x AND 0xff) div 16"
    by (simp add: drop_bit_eq_div unat_div)
  then show ?thesis using unat_and_255 [of x] by simp
qed

lemma nibbles_join:
  "word_of_int (int (unat (drop_bit 4 (b :: 32 word)) * 16 + unat (b AND 0x0f))) = b"
proof -
  have "b AND 0x0f = take_bit 4 b"
    by (simp add: take_bit_eq_mask mask_eq_exp_minus_1)
  moreover have "push_bit 4 (drop_bit 4 b) + take_bit 4 b = b"
    by (simp add: bits_ident)
  ultimately show ?thesis
    by (simp add: push_bit_eq_mult mult.commute)
qed

lemma parse_hexByte:
  "toInt32 (parseInt (hexByte (x AND 0xff)) 16) = x AND 0xff"
proof -
  let ?b = "x AND 0xff"
  have hi: "unat (drop_bit 4 ?b) < 16" by (rule unat_hi_nibble)
  have lo: "unat (?b AND 0x0f) < 16" by (rule unat_and_15)
  show ?thesis
    unfolding hexByte_def
    by (simp only: parseInt_two_hexchars [OF hexchar_hexDigit [OF hi] hexchar_hexDigit [OF lo]]
        digit_value_hexDigit [OF hi] digit_value_hexDigit [OF lo] option.sel toInt32_def
        number.case nibbles_join)
qed

lemma bytes_join:
  fixes x :: "32 word"
  shows "push_bit 24 (drop_bit 24 x AND 0xff) OR push_bit 16 (drop_bit 16 x AND 0xff) OR
         push_bit 8 (drop_bit 8 x AND 0xff) OR (x AND 0xff) = x"
proof -
  have m: "(0xff :: 32 word) = mask 8" by (simp add: mask_eq_exp_minus_1)
  show ?thesis
    unfolding m
  proof (rule bit_eqI)
    fix n
    assume "possible_bit TYPE(32 word) n"
    then have n: "n < 32" by (simp add: possible_bit_def)
    consider "n < 8" | "8 \<le> n" "n < 16" | "16 \<le> n" "n < 24" | "24 \<le> n"
      by linarith
    then show "bit (push_bit 24 (drop_bit 24 x AND mask 8) OR push_bit 16 (drop_bit 16 x AND mask 8) OR
         push_bit 8 (drop_bit 8 x AND mask 8) OR (x AND mask 8)) n = bit x n"
      using n by cases (auto simp: bit_simps)
  qed
qed


lemma Hex_parse_loop_hexByte:
  "Hex_parse_loop i (hexByte (x AND 0xff) @ rest) ws =
   Hex_parse_loop (i + 2) rest
     (js_set ws (i div 8) (js_get ws (i div 8) OR push_bit (24 - (i mod 8) * 4) (x AND 0xff)))"
proof -
  obtain a b where ab: "hexByte (x AND 0xff) = [a, b]"
    by (simp add: hexByte_def)
  have "toInt32 (parseInt [a, b] 16) = x AND 0xff"
    using parse_hexByte [of x] by (simp add: ab)
  then show ?thesis by (simp add: ab)
qed

lemma Hex_parse_loop_hexWord:
  "Hex_parse_loop (8 * length acc) (hexWord x @ rest) acc =
   Hex_parse_loop (8 * length (acc @ [x])) rest (acc @ [x])"
proof -
  let ?n = "length acc"
  have idx: "(8 * ?n) div 8 = ?n" "(8 * ?n + 2) div 8 = ?n" "(8 * ?n + 2 + 2) div 8 = ?n"
    "(8 * ?n + 2 + 2 + 2) div 8 = ?n"
    "(8 * ?n) mod 8 = 0" "(8 * ?n + 2) mod 8 = 2" "(8 * ?n + 2 + 2) mod 8 = 4"
    "(8 * ?n + 2 + 2 + 2) mod 8 = 6"
    by arith+
  have "Hex_parse_loop (8 * ?n) (hexWord x @ rest) acc =
        Hex_parse_loop (8 * ?n + 2 + 2 + 2 + 2) rest
          (acc @ [push_bit 24 (drop_bit 24 x AND 0xff) OR push_bit 16 (drop_bit 16 x AND 0xff) OR
                  push_bit 8 (drop_bit 8 x AND 0xff) OR (x AND 0xff)])"
    unfolding hexWord_def append_assoc Hex_parse_loop_hexByte idx
    by (simp add: js_get_def js_set_def or.assoc)
  moreover have "8 * ?n + 2 + 2 + 2 + 2 = 8 * length (acc @ [x])" by simp
  ultimately show ?thesis by (simp only: bytes_join)
qed

lemma Hex_parse_loop_words:
  "Hex_parse_loop (8 * length acc) (concat (map hexWord ws)) acc = acc @ ws"
proof (induction ws arbitrary: acc)
  case Nil
  then show ?case by simp
next
  case (Cons x ws)
  have "Hex_parse_loop (8 * length acc) (concat (map hexWord (x # ws))) acc =
        Hex_parse_loop (8 * length (acc @ [x])) (concat (map hexWord ws)) (acc @ [x])"
    by (simp add: Hex_parse_loop_hexWord)
  also have "\<dots> = (acc @ [x]) @ ws" by (rule Cons.IH)
  finally show ?case by simp
qed

lemma byteAt_snoc_old: "i < 4 * length ws \<Longrightarrow> byteAt (ws @ [x]) i = byteAt ws i"
  by (simp add: byteAt_def js_get_def nth_append)

lemma idx4:
  fixes n :: nat
  shows "Suc (4 * n) div 4 = n" "Suc (Suc (4 * n)) div 4 = n" "Suc (Suc (Suc (4 * n))) div 4 = n"
    "Suc (4 * n) mod 4 = 1" "Suc (Suc (4 * n)) mod 4 = 2" "Suc (Suc (Suc (4 * n))) mod 4 = 3"
  by arith+

lemma byteAt_snoc_new:
  "byteAt (ws @ [x]) (4 * length ws) = drop_bit 24 x AND 0xff"
  "byteAt (ws @ [x]) (Suc (4 * length ws)) = drop_bit 16 x AND 0xff"
  "byteAt (ws @ [x]) (Suc (Suc (4 * length ws))) = drop_bit 8 x AND 0xff"
  "byteAt (ws @ [x]) (Suc (Suc (Suc (4 * length ws)))) = x AND 0xff"
  by (simp_all add: byteAt_def js_get_def nth_append idx4)

lemma stringify_words:
  "concat (map (\<lambda>i. hexByte (byteAt ws i)) [0..<4 * length ws]) = concat (map hexWord ws)"
proof (induction ws rule: rev_induct)
  case Nil
  then show ?case by simp
next
  case (snoc x ws)
  let ?n = "length ws"
  have split: "[0..<4 * length (ws @ [x])] =
      [0..<4 * ?n] @ [4 * ?n, Suc (4 * ?n), Suc (Suc (4 * ?n)), Suc (Suc (Suc (4 * ?n)))]"
  proof -
    have "4 * length (ws @ [x]) = Suc (Suc (Suc (Suc (4 * ?n))))" by simp
    then show ?thesis by (simp del: length_append)
  qed
  have old: "map (\<lambda>i. hexByte (byteAt (ws @ [x]) i)) [0..<4 * ?n] =
             map (\<lambda>i. hexByte (byteAt ws i)) [0..<4 * ?n]"
    by (rule map_cong) (simp_all add: byteAt_snoc_old)
  show ?case
    unfolding split map_append concat_append old snoc.IH
    by (simp add: byteAt_snoc_new hexWord_def)
qed

lemma length_hexWord: "length (hexWord x) = 8"
  by (simp add: hexWord_def hexByte_def)

lemma length_concat_hexWord: "length (concat (map hexWord ws)) = 8 * length ws"
  by (induction ws) (simp_all add: length_hexWord)

lemma Hex_stringify_aligned:
  assumes "word_aligned w"
  shows "Hex_stringify w = concat (map hexWord (words w))"
proof -
  have "sigBytes w = of_nat (4 * length (words w))"
    using assms by (simp only: word_aligned_def)
  then have "nat \<lceil>sigBytes w\<rceil> = 4 * length (words w)"
    by (simp only: ceiling_of_nat nat_int)
  then show ?thesis
    by (simp only: Hex_stringify_def stringify_words)
qed

lemma Hex_roundtrip:
  assumes "word_aligned w"
  shows "Hex_parse (Hex_stringify w) = w"
proof -
  have s: "Hex_stringify w = concat (map hexWord (words w))"
    using assms by (rule Hex_stringify_aligned)
  have "Hex_parse_loop (8 * length ([] :: 32 word list)) (concat (map hexWord (words w))) [] = [] @ words w"
    by (rule Hex_parse_loop_words)
  then have w: "Hex_parse_loop 0 (concat (map hexWord (words w))) [] = words w" by simp
  have b: "of_nat (length (concat (map hexWord (words w)))) / 2 = sigBytes w"
    using assms by (simp add: length_concat_hexWord word_aligned_def)
  show ?thesis
    unfolding Hex_parse_def s w b by simp
qed



text \<open>Decoding the hex string of any list of bytes gives these bytes back.\<close>

lemma Hex_stringify_bytes: "Hex_stringify w = hex_of_bytes (bytes_of w)"
  by (simp add: Hex_stringify_def hex_of_bytes_def bytes_of_def comp_def)

lemma js_get_js_set: "js_get (js_set ws k v) k' = (if k' = k then v else js_get ws k')"
  by (auto simp: js_get_def js_set_def nth_append nth_Cons' split: if_splits)

lemma is_byte_bit: "is_byte b \<Longrightarrow> bit b m \<Longrightarrow> m < 8"
proof -
  assume a: "is_byte b" and b: "bit b m"
  have "(0xff :: 32 word) = mask 8" by (simp add: mask_eq_exp_minus_1)
  then have "b = b AND mask 8" using a by (simp add: is_byte_def)
  then have "bit (b AND mask 8) m" using b by simp
  then show "m < 8" by (simp add: bit_simps)
qed

lemma byte_extract:
  fixes b :: "32 word"
  assumes "a < 4" "c < 4" "is_byte b"
  shows "drop_bit (24 - c * 8) (push_bit (24 - a * 8) b) AND 0xff = (if a = c then b else 0)"
proof -
  have m: "(0xff :: 32 word) = mask 8" by (simp add: mask_eq_exp_minus_1)
  show ?thesis
    unfolding m
  proof (rule bit_eqI)
    fix n
    assume "possible_bit TYPE(32 word) n"
    then have n: "n < 32" by (simp add: possible_bit_def)
    show "bit (drop_bit (24 - c * 8) (push_bit (24 - a * 8) b) AND mask 8) n =
          bit (if a = c then b else 0) n"
    proof (cases "a = c")
      case True
      then show ?thesis
        using assms n is_byte_bit [OF assms(3), of n]
        by (auto simp: bit_simps)
    next
      case False
      have "\<not> (n < 8 \<and> 24 - a * 8 \<le> 24 - c * 8 + n \<and> bit b (24 - c * 8 + n - (24 - a * 8)))"
      proof
        assume h: "n < 8 \<and> 24 - a * 8 \<le> 24 - c * 8 + n \<and> bit b (24 - c * 8 + n - (24 - a * 8))"
        then have "24 - c * 8 + n - (24 - a * 8) < 8"
          using is_byte_bit [OF assms(3)] by blast
        then show False using h False assms(1,2) by arith
      qed
      then show ?thesis
        using False by (auto simp: bit_simps)
    qed
  qed
qed


lemma byteAt_step:
  assumes "byteAt ws j = 0" and "is_byte b"
  shows "byteAt (js_set ws (j div 4) (js_get ws (j div 4) OR push_bit (24 - (j mod 4) * 8) b)) i =
           (if i = j then b else byteAt ws i)"
proof (cases "i div 4 = j div 4")
  case False
  then have "i \<noteq> j" by auto
  then show ?thesis using False by (simp add: byteAt_def js_get_js_set)
next
  case True
  have e: "drop_bit (24 - (i mod 4) * 8) (push_bit (24 - (j mod 4) * 8) b) AND 0xff =
        (if j mod 4 = i mod 4 then b else 0)"
    by (rule byte_extract) (simp_all add: assms(2))
  have ij: "i = j \<longleftrightarrow> j mod 4 = i mod 4"
    using True by (metis div_mult_mod_eq)
  have "byteAt (js_set ws (j div 4) (js_get ws (j div 4) OR push_bit (24 - (j mod 4) * 8) b)) i =
      (drop_bit (24 - (i mod 4) * 8) (js_get ws (j div 4)) AND 0xff) OR
      (drop_bit (24 - (i mod 4) * 8) (push_bit (24 - (j mod 4) * 8) b) AND 0xff)"
    by (simp add: byteAt_def js_get_js_set True bit.conj_disj_distrib2)
  also have "\<dots> = byteAt ws i OR (if i = j then b else 0)"
    by (simp only: e ij byteAt_def True)
  also have "\<dots> = (if i = j then b else byteAt ws i)"
    using assms(1) by auto
  finally show ?thesis .
qed

lemma Hex_parse_loop_byte:
  assumes "is_byte b"
  shows "Hex_parse_loop (2 * j) (hexByte b @ rest) ws =
     Hex_parse_loop (2 * Suc j) rest
       (js_set ws (j div 4) (js_get ws (j div 4) OR push_bit (24 - (j mod 4) * 8) b))"
proof -
  have b: "b AND 0xff = b" using assms by (simp add: is_byte_def)
  have m: "(2 * j) mod 8 = 2 * (j mod 4)"
    using mult_mod_right [of 2 j 4] by simp
  have d: "(2 * j) div 8 = j div 4"
    using div_mult2_eq [of "2 * j" 2 4] by simp
  have i: "(2 * j) div 8 = j div 4" "(2 * j) mod 8 * 4 = (j mod 4) * 8" "2 * j + 2 = 2 * Suc j"
    by (simp_all add: m d)
  show ?thesis
    using Hex_parse_loop_hexByte [of "2 * j" b rest ws] unfolding b i .
qed

lemma Hex_parse_loop_bytes:
  assumes "list_all is_byte bs" and "\<forall>i\<ge>j. byteAt ws i = 0"
  shows "byteAt (Hex_parse_loop (2 * j) (hex_of_bytes bs) ws) i =
     (if i < j then byteAt ws i else if i < j + length bs then bs ! (i - j) else 0)"
  using assms
proof (induction bs arbitrary: j ws)
  case Nil
  then show ?case by (simp add: hex_of_bytes_def)
next
  case (Cons b bs)
  let ?ws = "js_set ws (j div 4) (js_get ws (j div 4) OR push_bit (24 - (j mod 4) * 8) b)"
  have b: "is_byte b" and bs: "list_all is_byte bs" using Cons.prems(1) by simp_all
  have z: "byteAt ws j = 0" using Cons.prems(2) by simp
  have st: "\<And>i. byteAt ?ws i = (if i = j then b else byteAt ws i)"
    by (rule byteAt_step [OF z b])
  have z': "\<forall>i\<ge>Suc j. byteAt ?ws i = 0"
    using Cons.prems(2) by (simp add: st)
  have "Hex_parse_loop (2 * j) (hex_of_bytes (b # bs)) ws =
        Hex_parse_loop (2 * Suc j) (hex_of_bytes bs) ?ws"
    using Hex_parse_loop_byte [OF b, of j "hex_of_bytes bs" ws] by (simp add: hex_of_bytes_def)
  then have "byteAt (Hex_parse_loop (2 * j) (hex_of_bytes (b # bs)) ws) i =
      (if i < Suc j then byteAt ?ws i else if i < Suc j + length bs then bs ! (i - Suc j) else 0)"
    using Cons.IH [OF bs z'] by simp
  then show ?case
    by (auto simp: st nth_Cons' less_Suc_eq)
qed

lemma length_hex_of_bytes: "length (hex_of_bytes bs) = 2 * length bs"
  by (induction bs) (simp_all add: hex_of_bytes_def hexByte_def)

lemma Hex_parse_bytes:
  assumes "list_all is_byte bs"
  shows "bytes_of (Hex_parse (hex_of_bytes bs)) = bs"
    and "sigBytes (Hex_parse (hex_of_bytes bs)) = of_nat (length bs)"
proof -
  show s: "sigBytes (Hex_parse (hex_of_bytes bs)) = of_nat (length bs)"
    by (simp add: Hex_parse_def length_hex_of_bytes)
  have z: "\<forall>i\<ge>0. byteAt [] i = 0" by (simp add: byteAt_def js_get_def)
  have w: "words (Hex_parse (hex_of_bytes bs)) = Hex_parse_loop (2 * 0) (hex_of_bytes bs) []"
    by (simp add: Hex_parse_def)
  have e: "byteAt (words (Hex_parse (hex_of_bytes bs))) i = bs ! i" if "i < length bs" for i
    unfolding w using Hex_parse_loop_bytes [OF assms z, of i] that by simp
  have n: "nat \<lceil>sigBytes (Hex_parse (hex_of_bytes bs))\<rceil> = length bs"
    unfolding s by (simp only: ceiling_of_nat nat_int)
  show "bytes_of (Hex_parse (hex_of_bytes bs)) = bs"
    unfolding bytes_of_def n by (rule nth_equalityI) (simp_all add: e)
qed

section \<open>HwScramAuth: keys and proofs\<close>

lemma deriveKey_setParams:
  "deriveKey L (setParams this0 cNonce sNonce slt its) label =
     Inr (HmacSHA256 L
            (WA (PBKDF2 L (Str (pwd this0)) (WA (Hex_parse slt))
                   \<lparr>hasher = SHA256, iterations = Some its, keySize = 8\<rparr>))
            (Str label))"
  by (simp add: deriveKey_def setParams_def KEYSIZE_def)

lemma deriveKey_derived:
  "deriveKey L (setParams this0 cNonce sNonce slt its) label =
     Inr (derived_key L (pwd this0) slt its label)"
  by (simp add: deriveKey_setParams derived_key_def)

lemma sigSecret_setParams:
  "sigSecret (setParams this0 cNonce sNonce slt its) = Some (cNonce @ '','' @ sNonce @ '','' @ sNonce)"
  by (simp add: setParams_def)

lemma hmac_digest32: "hmac_sha256_digests L \<Longrightarrow> digest32 (HmacSHA256 L m k)"
  by (simp add: hmac_sha256_digests_def)

lemma hmac_word_aligned: "hmac_sha256_digests L \<Longrightarrow> word_aligned (HmacSHA256 L m k)"
  by (simp add: hmac_sha256_digests_def digest32_def word_aligned_def)

lemma update_words_digest32:
  "digest32 ck \<Longrightarrow> ck\<lparr>words := ws\<rparr> = \<lparr>words = ws, sigBytes = 32\<rparr>"
  by (cases ck) (simp add: digest32_def)

lemma byteAt_map2_xor:
  assumes "length a = 8" "length b = 8" "i < 32"
  shows "byteAt (map2 (XOR) a b) i = byteAt a i XOR byteAt b i"
proof -
  have "i div 4 < 8" using assms(3) by simp
  then show ?thesis
    using assms(1,2)
    by (simp add: byteAt_def js_get_def bit.conj_xor_distrib2)
qed

lemma calcServerProof_setParams:
  "fst (calcServerProof L (setParams this0 cNonce sNonce slt its)) =
     Inr (Hex_stringify
            (HmacSHA256 L (WA (derived_key L (pwd this0) slt its ''Server Key''))
               (Str (cNonce @ '','' @ sNonce @ '','' @ sNonce))))"
  by (simp add: calcServerProof_def deriveKey_derived sigSecret_setParams input_of_def)

lemma calcProof_setParams:
  "fst (calcProof L doc (setParams this0 cNonce sNonce slt its)) =
     (let clientKey = derived_key L (pwd this0) slt its ''Client Key'';
          storedKey = SHA256_finalize L [WA clientKey];
          signature = HmacSHA256 L (WA storedKey) (Str (cNonce @ '','' @ sNonce @ '','' @ sNonce))
      in case xor_in_place clientKey signature of
           Inl e \<Rightarrow> Inl e
         | Inr xored \<Rightarrow> Inr (Hex_stringify xored))"
  by (simp add: calcProof_def deriveKey_derived sigSecret_setParams input_of_def Let_def
      split: sum.splits)

lemma calcPubSig_setParams:
  assumes "hmac_sha256_digests L"
  shows "fst (calcPubSig L (setParams this0 cNonce sNonce slt its) key) =
     Inr (Hex_stringify
            (HmacSHA256 L (WA (Hex_parse key)) (WA (derived_key L (pwd this0) slt its ''Server Key''))))"
proof -
  have "word_aligned (derived_key L (pwd this0) slt its ''Server Key'')"
    unfolding derived_key_def using assms by (rule hmac_word_aligned)
  then show ?thesis
    by (simp add: calcPubSig_def deriveKey_derived Hex_roundtrip)
qed

lemma test_cryptojs_digests: "hmac_sha256_digests test_cryptojs"
  by (simp add: hmac_sha256_digests_def digest32_def test_cryptojs_def)

lemma calcProof_state: "snd (snd (calcProof L doc this)) = this"
  by (simp add: calcProof_def Let_def split: sum.splits)

lemma calcServerProof_state: "snd (snd (calcServerProof L this)) = this"
  by (simp add: calcServerProof_def Let_def split: sum.splits)

lemma calcPubSig_state: "snd (snd (calcPubSig L this key)) = this"
  by (simp add: calcPubSig_def Let_def split: sum.splits)

lemma do_call_state: "snd (snd (do_call L doc c this)) = this"
  by (cases c) (simp_all add: calcProof_state calcServerProof_state calcPubSig_state)

lemma run_calls_same_object:
  "run_calls L doc cs this = (map (\<lambda>c. fst (do_call L doc c this)) cs, this)"
proof (induction cs)
  case Nil
  then show ?case by simp
next
  case (Cons c cs)
  obtain r out this' where d: "do_call L doc c this = (r, out, this')"
    by (cases "do_call L doc c this") auto
  have "this' = this" using do_call_state [of L doc c this] d by simp
  then show ?case using d Cons.IH by simp
qed

text \<open>
  C1. With the parameters set, \<open>calcProof\<close> derives the client key with the label
  "Client Key", hashes it with SHA-256 into the stored key, computes the signature as
  HMAC-SHA256 with the stored key as message and the stored \<open>sigSecret\<close> as key, and
  returns the hex string of the word-wise XOR of client key and signature: all 8 words,
  which is the XOR of the 32 bytes taken most significant byte first.
\<close>

theorem calcProof_client_proof:
  assumes "hmac_sha256_digests L"
  shows "let this = setParams this0 cNonce sNonce slt its;
             clientKey = HmacSHA256 L
                 (WA (PBKDF2 L (Str (pwd this0)) (WA (Hex_parse slt))
                        \<lparr>hasher = SHA256, iterations = Some its, keySize = 8\<rparr>))
                 (Str ''Client Key'');
             storedKey = SHA256_finalize L [WA clientKey];
             signature = HmacSHA256 L (WA storedKey) (Str (the (sigSecret this)));
             xored = map2 (XOR) (words clientKey) (words signature)
         in deriveKey L this ''Client Key'' = Inr clientKey \<and>
            fst (calcProof L doc this) = Inr (Hex_stringify \<lparr>words = xored, sigBytes = 32\<rparr>) \<and>
            length xored = 8 \<and>
            (\<forall>i<32. byteAt xored i = byteAt (words clientKey) i XOR byteAt (words signature) i)"
proof -
  let ?st = "setParams this0 cNonce sNonce slt its"
  let ?ck = "HmacSHA256 L
                 (WA (PBKDF2 L (Str (pwd this0)) (WA (Hex_parse slt))
                        \<lparr>hasher = SHA256, iterations = Some its, keySize = 8\<rparr>))
                 (Str ''Client Key'')"
  let ?sg = "HmacSHA256 L (WA (SHA256_finalize L [WA ?ck])) (Str (the (sigSecret ?st)))"
  have ck: "digest32 ?ck" and sg: "digest32 ?sg"
    using assms by (rule hmac_digest32)+
  have d: "deriveKey L ?st ''Client Key'' = Inr ?ck"
    by (rule deriveKey_setParams)
  have x: "xor_in_place ?ck ?sg = Inr \<lparr>words = map2 (XOR) (words ?ck) (words ?sg), sigBytes = 32\<rparr>"
    using ck sg by (simp add: xor_in_place_32 update_words_digest32)
  have s: "input_of (sigSecret ?st) = Str (the (sigSecret ?st))"
    by (simp add: sigSecret_setParams input_of_def)
  have c: "fst (calcProof L doc ?st) =
      Inr (Hex_stringify \<lparr>words = map2 (XOR) (words ?ck) (words ?sg), sigBytes = 32\<rparr>)"
    unfolding calcProof_def d s by (simp add: x Let_def)
  have l: "length (words ?ck) = 8" "length (words ?sg) = 8"
    using ck sg by (simp_all add: digest32_def)
  have b: "\<forall>i<32. byteAt (map2 (XOR) (words ?ck) (words ?sg)) i =
      byteAt (words ?ck) i XOR byteAt (words ?sg) i"
    using l by (simp add: byteAt_map2_xor)
  show ?thesis
    unfolding Let_def using d c l b by simp
qed

theorem calcProof_client_proof_witness:
  "hmac_sha256_digests test_cryptojs \<and>
   fst (calcProof test_cryptojs True
          (setParams (new_HwScramAuth ''admin'') ''c1'' ''s1'' ''aabb'' (Num 1000))) =
     Inr ''13ec4a731dec4a6d1fec4e6f1d944e6d13944b931594b5951794b797159cb595''"
proof -
  have h: "hmac_sha256_digests test_cryptojs"
    by (rule test_cryptojs_digests)
  have e: "Hex_stringify \<lparr>words = map2 (XOR)
      (words (HmacSHA256 test_cryptojs
                 (WA (PBKDF2 test_cryptojs (Str (pwd (new_HwScramAuth ''admin''))) (WA (Hex_parse ''aabb''))
                        \<lparr>hasher = SHA256, iterations = Some (Num 1000), keySize = 8\<rparr>))
                 (Str ''Client Key'')))
      (words (HmacSHA256 test_cryptojs (WA (SHA256_finalize test_cryptojs [WA (HmacSHA256 test_cryptojs
                 (WA (PBKDF2 test_cryptojs (Str (pwd (new_HwScramAuth ''admin''))) (WA (Hex_parse ''aabb''))
                        \<lparr>hasher = SHA256, iterations = Some (Num 1000), keySize = 8\<rparr>))
                 (Str ''Client Key''))]))
              (Str (the (sigSecret (setParams (new_HwScramAuth ''admin'') ''c1'' ''s1'' ''aabb'' (Num 1000))))))),
      sigBytes = 32\<rparr> = ''13ec4a731dec4a6d1fec4e6f1d944e6d13944b931594b5951794b797159cb595''"
    by code_simp
  show ?thesis
    using h e calcProof_client_proof [OF h, of "new_HwScramAuth ''admin''" "''c1''" "''s1''" "''aabb''" "Num 1000" True]
    by (simp add: Let_def)
qed

text \<open>
  C2. \<open>deriveKey\<close> calls PBKDF2 with SHA-256 as the hasher on the password and the
  hex-decoded salt, with the stored iteration count and a key size of 8 words (32
  bytes), and returns HMAC-SHA256 with that salted secret as the message and the label
  as the key. It does so for every salt string, iteration count and label, those of
  the claim among them; where the salt string is the hex string of a list of bytes,
  the decoded salt consists of exactly these bytes.
\<close>

theorem deriveKey_pbkdf2_then_hmac:
  "deriveKey L (setParams this0 cNonce sNonce slt its) label =
     Inr (HmacSHA256 L
            (WA (PBKDF2 L (Str (pwd this0)) (WA (Hex_parse slt))
                   \<lparr>hasher = SHA256, iterations = Some its, keySize = KEYSIZE\<rparr>))
            (Str label)) \<and>
   KEYSIZE = 8 \<and> 4 * KEYSIZE = 32 \<and>
   (0 < n \<and> its = Num n \<and> label \<in> {''Client Key'', ''Server Key''} \<and>
    list_all is_byte saltBytes \<and> slt = hex_of_bytes saltBytes \<longrightarrow>
      bytes_of (Hex_parse slt) = saltBytes \<and> sigBytes (Hex_parse slt) = of_nat (length saltBytes))"
  by (simp add: deriveKey_def setParams_def KEYSIZE_def Hex_parse_bytes)

theorem deriveKey_pbkdf2_then_hmac_witness:
  "(0::int) < 1000 \<and> list_all is_byte [0xaa, 0xbb] \<and> ''aabb'' = hex_of_bytes [0xaa, 0xbb] \<and>
   bytes_of (Hex_parse ''aabb'') = [0xaa, 0xbb] \<and> sigBytes (Hex_parse ''aabb'') = 2 \<and>
   deriveKey test_cryptojs
     (setParams (new_HwScramAuth ''admin'') ''c1'' ''s1'' ''aabb'' (Num 1000)) ''Client Key'' =
     Inr \<lparr>words = [349272828, 366115837, 382958846, 399801855, 416644864, 433487873,
                     450330882, 467173891],
          sigBytes = 32\<rparr>"
proof -
  have b: "list_all is_byte [0xaa, 0xbb]"
    by (simp add: is_byte_def)
  have h: "''aabb'' = hex_of_bytes [0xaa, 0xbb]"
    by code_simp
  have d: "HmacSHA256 test_cryptojs
            (WA (PBKDF2 test_cryptojs (Str (pwd (new_HwScramAuth ''admin''))) (WA (Hex_parse ''aabb''))
                   \<lparr>hasher = SHA256, iterations = Some (Num 1000), keySize = KEYSIZE\<rparr>))
            (Str ''Client Key'') =
     \<lparr>words = [349272828, 366115837, 382958846, 399801855, 416644864, 433487873,
                     450330882, 467173891],
          sigBytes = 32\<rparr>"
    by code_simp
  note t = deriveKey_pbkdf2_then_hmac
    [of test_cryptojs "new_HwScramAuth ''admin''" "''c1''" "''s1''" "''aabb''" "Num 1000"
        "''Client Key''" 1000 "[0xaa, 0xbb]"]
  show ?thesis
    using b h d t by simp
qed

text \<open>
  C3, as stated, fails: the string that \<open>setParams\<close> stores is not the plain
  concatenation of the client nonce and twice the server nonce, and the server proof
  is not the HMAC that takes that string as its message.
\<close>

theorem sigSecret_plain_concat_counterexample:
  "sigSecret (setParams (new_HwScramAuth ''admin'') ''c1'' ''s1'' ''aabb'' (Num 1000)) \<noteq>
     Some (''c1'' @ ''s1'' @ ''s1'') \<and>
   fst (calcServerProof test_cryptojs
          (setParams (new_HwScramAuth ''admin'') ''c1'' ''s1'' ''aabb'' (Num 1000))) \<noteq>
     Inr (Hex_stringify
            (HmacSHA256 test_cryptojs (Str (''c1'' @ ''s1'' @ ''s1''))
               (WA (derived_key test_cryptojs ''admin'' ''aabb'' (Num 1000) ''Server Key''))))"
proof -
  have a: "sigSecret (setParams (new_HwScramAuth ''admin'') ''c1'' ''s1'' ''aabb'' (Num 1000)) =
      Some ''c1,s1,s1''"
    by (simp add: setParams_def)
  have b: "fst (calcServerProof test_cryptojs
          (setParams (new_HwScramAuth ''admin'') ''c1'' ''s1'' ''aabb'' (Num 1000))) =
     Inr ''9fea0a8fa0eb0b90a1ec0c91a2ed0d92a3ee0e93a4ef0f94a5f01095a6f11196''"
    by code_simp
  have c: "Hex_stringify
            (HmacSHA256 test_cryptojs (Str (''c1'' @ ''s1'' @ ''s1''))
               (WA (derived_key test_cryptojs ''admin'' ''aabb'' (Num 1000) ''Server Key''))) =
     ''e9d1a289ead2a38aebd3a48becd4a58cedd5a68deed6a78eefd7a88ff0d8a990''"
    by code_simp
  show ?thesis
    unfolding a b c by simp
qed

text \<open>
  C3, amended. The stored string is the client nonce, a comma, the server nonce, a
  comma and the server nonce again; \<open>calcProof\<close> and \<open>calcServerProof\<close> both pass it
  to HMAC-SHA256 as the key (the second argument), the stored key and the server key
  being the messages.
\<close>

theorem sigSecret_comma_separated_hmac_key:
  "let this = setParams this0 cNonce sNonce slt its;
       authMessage = cNonce @ '','' @ sNonce @ '','' @ sNonce;
       clientKey = derived_key L (pwd this0) slt its ''Client Key'';
       serverKey = derived_key L (pwd this0) slt its ''Server Key''
   in sigSecret this = Some authMessage \<and>
      fst (calcProof L doc this) =
        (case xor_in_place clientKey
                (HmacSHA256 L (WA (SHA256_finalize L [WA clientKey])) (Str authMessage)) of
           Inl e \<Rightarrow> Inl e
         | Inr xored \<Rightarrow> Inr (Hex_stringify xored)) \<and>
      fst (calcServerProof L this) = Inr (Hex_stringify (HmacSHA256 L (WA serverKey) (Str authMessage)))"
  by (simp add: Let_def sigSecret_setParams calcProof_setParams calcServerProof_setParams)

text \<open>
  C6. \<open>calcPubSig\<close> returns the hex string of HMAC-SHA256 with the decoded public
  key as the message and the derived "Server Key" as the key (the server key passes
  through its hex string and back unchanged, and a public key that is the hex string
  of a list of bytes decodes to these bytes), whereas \<open>calcServerProof\<close> takes the
  derived server key as the message and \<open>sigSecret\<close> as the key.
\<close>

theorem calcPubSig_roles_swapped:
  assumes "hmac_sha256_digests L"
  shows "let this = setParams this0 cNonce sNonce slt its;
             serverKey = HmacSHA256 L
                 (WA (PBKDF2 L (Str (pwd this0)) (WA (Hex_parse slt))
                        \<lparr>hasher = SHA256, iterations = Some its, keySize = 8\<rparr>))
                 (Str ''Server Key'')
         in deriveKey L this ''Server Key'' = Inr serverKey \<and>
            fst (calcPubSig L this key) =
              Inr (Hex_stringify (HmacSHA256 L (WA (Hex_parse key)) (WA serverKey))) \<and>
            fst (calcServerProof L this) =
              Inr (Hex_stringify (HmacSHA256 L (WA serverKey) (Str (the (sigSecret this))))) \<and>
            (list_all is_byte keyBytes \<and> key = hex_of_bytes keyBytes \<longrightarrow>
               bytes_of (Hex_parse key) = keyBytes)"
  using calcPubSig_setParams [OF assms, of this0 cNonce sNonce slt its key]
  by (simp add: Let_def deriveKey_setParams calcServerProof_setParams sigSecret_setParams
      derived_key_def Hex_parse_bytes)

theorem calcPubSig_roles_swapped_witness:
  "hmac_sha256_digests test_cryptojs \<and>
   list_all is_byte [0xc0, 0xff, 0xee] \<and> ''c0ffee'' = hex_of_bytes [0xc0, 0xff, 0xee] \<and>
   bytes_of (Hex_parse ''c0ffee'') = [0xc0, 0xff, 0xee] \<and>
   fst (calcPubSig test_cryptojs
          (setParams (new_HwScramAuth ''admin'') ''c1'' ''s1'' ''aabb'' (Num 1000)) ''c0ffee'') =
     Inr ''955d8d15965e8e16975f8f1798609018996191199a62921a9b63931b9c64941c'' \<and>
   fst (calcServerProof test_cryptojs
          (setParams (new_HwScramAuth ''admin'') ''c1'' ''s1'' ''aabb'' (Num 1000))) =
     Inr ''9fea0a8fa0eb0b90a1ec0c91a2ed0d92a3ee0e93a4ef0f94a5f01095a6f11196''"
proof -
  have h: "hmac_sha256_digests test_cryptojs"
    by (rule test_cryptojs_digests)
  have b: "list_all is_byte [0xc0, 0xff, 0xee]"
    by (simp add: is_byte_def)
  have k: "''c0ffee'' = hex_of_bytes [0xc0, 0xff, 0xee]"
    by code_simp
  let ?sk = "HmacSHA256 test_cryptojs
                 (WA (PBKDF2 test_cryptojs (Str (pwd (new_HwScramAuth ''admin''))) (WA (Hex_parse ''aabb''))
                        \<lparr>hasher = SHA256, iterations = Some (Num 1000), keySize = 8\<rparr>))
                 (Str ''Server Key'')"
  have e1: "Hex_stringify (HmacSHA256 test_cryptojs (WA (Hex_parse ''c0ffee'')) (WA ?sk)) =
      ''955d8d15965e8e16975f8f1798609018996191199a62921a9b63931b9c64941c''"
    by code_simp
  have e2: "Hex_stringify (HmacSHA256 test_cryptojs (WA ?sk)
        (Str (the (sigSecret (setParams (new_HwScramAuth ''admin'') ''c1'' ''s1'' ''aabb'' (Num 1000)))))) =
      ''9fea0a8fa0eb0b90a1ec0c91a2ed0d92a3ee0e93a4ef0f94a5f01095a6f11196''"
    by code_simp
  note t = calcPubSig_roles_swapped
    [OF h, of "new_HwScramAuth ''admin''" "''c1''" "''s1''" "''aabb''" "Num 1000" "''c0ffee''"
       "[0xc0, 0xff, 0xee]"]
  show ?thesis
    using h b k e1 e2 t by (simp add: Let_def)
qed

text \<open>
  C7. For a client key and a signature of 32 bytes each, the loop of \<open>calcProof\<close>
  succeeds, and running it again on its result with the same signature gives the
  client key back.
\<close>

theorem xor_in_place_self_inverse:
  assumes "digest32 clientKey" and "digest32 signature"
  shows "case xor_in_place clientKey signature of
           Inl e \<Rightarrow> False
         | Inr xored \<Rightarrow> xor_in_place xored signature = Inr clientKey"
proof -
  let ?r = "clientKey\<lparr>words := map2 (XOR) (words clientKey) (words signature)\<rparr>"
  have r: "digest32 ?r" using assms by (simp add: digest32_def)
  have "map2 (XOR) (map2 (XOR) (words clientKey) (words signature)) (words signature) = words clientKey"
    using assms by (simp add: digest32_def list_eq_iff_nth_eq xor.assoc)
  then show ?thesis using assms r by (simp add: xor_in_place_32)
qed

theorem xor_in_place_self_inverse_witness:
  "digest32 \<lparr>words = [1, 2, 3, 4, 5, 6, 7, 0xffffffff], sigBytes = 32\<rparr> \<and>
   digest32 \<lparr>words = [0x80000000, 0x7fffffff, 0, 0xdeadbeef, 5, 6, 0x0f0f0f0f, 1], sigBytes = 32\<rparr> \<and>
   xor_in_place \<lparr>words = [1, 2, 3, 4, 5, 6, 7, 0xffffffff], sigBytes = 32\<rparr>
     \<lparr>words = [0x80000000, 0x7fffffff, 0, 0xdeadbeef, 5, 6, 0x0f0f0f0f, 1], sigBytes = 32\<rparr> =
     Inr \<lparr>words = [0x80000001, 0x7ffffffd, 3, 0xdeadbeeb, 0, 0, 0x0f0f0f08, 0xfffffffe], sigBytes = 32\<rparr> \<and>
   xor_in_place
     \<lparr>words = [0x80000001, 0x7ffffffd, 3, 0xdeadbeeb, 0, 0, 0x0f0f0f08, 0xfffffffe], sigBytes = 32\<rparr>
     \<lparr>words = [0x80000000, 0x7fffffff, 0, 0xdeadbeef, 5, 6, 0x0f0f0f0f, 1], sigBytes = 32\<rparr> =
     Inr \<lparr>words = [1, 2, 3, 4, 5, 6, 7, 0xffffffff], sigBytes = 32\<rparr>"
proof -
  let ?k = "\<lparr>words = [1, 2, 3, 4, 5, 6, 7, 0xffffffff :: 32 word], sigBytes = 32\<rparr>"
  let ?s = "\<lparr>words = [0x80000000, 0x7fffffff, 0, 0xdeadbeef, 5, 6, 0x0f0f0f0f, 1 :: 32 word], sigBytes = 32\<rparr>"
  have k: "digest32 ?k" and s: "digest32 ?s"
    by (simp_all add: digest32_def)
  have x: "xor_in_place ?k ?s =
     Inr \<lparr>words = [0x80000001, 0x7ffffffd, 3, 0xdeadbeeb, 0, 0, 0x0f0f0f08, 0xfffffffe], sigBytes = 32\<rparr>"
    by code_simp
  show ?thesis
    using k s x xor_in_place_self_inverse [OF k s] by simp
qed

lemma xor_loop_at_object:
  "clientKey < length h \<Longrightarrow> signature < length h \<Longrightarrow> clientKey \<noteq> signature \<Longrightarrow>
   xor_loop_at ks clientKey signature h =
     h[clientKey := (h ! clientKey)
         \<lparr>words := xor_loop ks (words (h ! clientKey)) (words (h ! signature))\<rparr>]"
proof (induction ks arbitrary: h)
  case Nil
  then show ?case by simp
next
  case (Cons i ks)
  let ?h1 = "h[clientKey := (h ! clientKey)
            \<lparr>words := js_set (words (h ! clientKey)) i
                        (js_get (words (h ! clientKey)) i XOR js_get (words (h ! signature)) i)\<rparr>]"
  have l: "clientKey < length ?h1" "signature < length ?h1"
    using Cons.prems by simp_all
  show ?case
    using Cons.IH [OF l Cons.prems(3)] Cons.prems by simp
qed

lemma deriveKey_at_salt:
  "salt this = Some slt \<Longrightarrow>
   deriveKey_at L this label h =
     (Inr (length h + 2),
      h @ [Hex_parse slt,
           PBKDF2 L (Str (pwd this)) (WA (Hex_parse slt))
             \<lparr>hasher = SHA256, iterations = iters this, keySize = KEYSIZE\<rparr>,
           HmacSHA256 L
             (WA (PBKDF2 L (Str (pwd this)) (WA (Hex_parse slt))
                    \<lparr>hasher = SHA256, iterations = iters this, keySize = KEYSIZE\<rparr>))
             (Str label)])"
  by (simp add: deriveKey_at_def Hex_parse_at_def PBKDF2_at_def HmacSHA256_at_def alloc_def
      value_at_def nth_append)

lemma deriveKey_salt:
  "salt this = Some slt \<Longrightarrow>
   deriveKey L this label =
     Inr (HmacSHA256 L
             (WA (PBKDF2 L (Str (pwd this)) (WA (Hex_parse slt))
                    \<lparr>hasher = SHA256, iterations = iters this, keySize = KEYSIZE\<rparr>))
             (Str label))"
  by (simp add: deriveKey_def)

lemma value_at_arg_of: "value_at h (arg_of v) = input_of v"
  by (simp add: value_at_def arg_of_def input_of_def split: option.splits)

lemma nth_new: "(h @ xs) ! (length h + k) = xs ! k"
  by (rule nth_append_length_plus)

lemma update_new: "(h @ xs)[length h + k := v] = h @ xs[k := v]"
  by (simp add: list_update_append)

lemma value_at_new:
  "k < length xs \<Longrightarrow> value_at (h @ xs) (ObjArg (length h + k)) = WA (xs ! k)"
  by (simp add: value_at_def nth_new)

lemma calcProof_at_salt:
  assumes "salt this = Some slt"
  shows "calcProof_at L doc this h =
     (let salted = PBKDF2 L (Str (pwd this)) (WA (Hex_parse slt))
                     \<lparr>hasher = SHA256, iterations = iters this, keySize = KEYSIZE\<rparr>;
          clientKey = HmacSHA256 L (WA salted) (Str ''Client Key'');
          storedKey = SHA256_finalize L [WA clientKey];
          signature = HmacSHA256 L (WA storedKey) (input_of (sigSecret this))
      in (calcProof L doc this,
          (h @ [Hex_parse slt, salted, clientKey, storedKey, signature])
            [length h + 2 := (case xor_in_place clientKey signature of
                                Inl e \<Rightarrow> clientKey
                              | Inr xored \<Rightarrow> xored)]))"
proof -
  define salted where "salted = PBKDF2 L (Str (pwd this)) (WA (Hex_parse slt))
                     \<lparr>hasher = SHA256, iterations = iters this, keySize = KEYSIZE\<rparr>"
  define ck where "ck = HmacSHA256 L (WA salted) (Str ''Client Key'')"
  define sk where "sk = SHA256_finalize L [WA ck]"
  define sg where "sg = HmacSHA256 L (WA sk) (input_of (sigSecret this))"
  have d: "deriveKey_at L this ''Client Key'' h = (Inr (length h + 2), h @ [Hex_parse slt, salted, ck])"
    unfolding deriveKey_at_salt [OF assms] salted_def ck_def by simp
  have p: "deriveKey L this ''Client Key'' = Inr ck"
    unfolding deriveKey_salt [OF assms] salted_def ck_def by simp
  have c1: "value_at (h @ [Hex_parse slt, salted, ck]) (ObjArg (length h + 2)) = WA ck"
    using value_at_new [of 2 "[Hex_parse slt, salted, ck]" h] by simp
  have f: "SHA256_finalize_at L [WA ck] (h @ [Hex_parse slt, salted, ck]) =
      (length h + 3, h @ [Hex_parse slt, salted, ck, sk])"
    by (simp add: SHA256_finalize_at_def alloc_def sk_def)
  have c2: "value_at (h @ [Hex_parse slt, salted, ck, sk]) (ObjArg (length h + 3)) = WA sk"
    using value_at_new [of 3 "[Hex_parse slt, salted, ck, sk]" h] by simp
  have m: "HmacSHA256_at L (ObjArg (length h + 3)) (arg_of (sigSecret this))
             (h @ [Hex_parse slt, salted, ck, sk]) =
      (length h + 4, h @ [Hex_parse slt, salted, ck, sk, sg])"
    unfolding HmacSHA256_at_def c2 value_at_arg_of by (simp add: alloc_def sg_def)
  let ?h3 = "h @ [Hex_parse slt, salted, ck, sk, sg]"
  have n: "?h3 ! (length h + 2) = ck" "?h3 ! (length h + 3) = sk" "?h3 ! (length h + 4) = sg"
    by (simp_all only: nth_new) simp_all
  have n1: "(h @ [Hex_parse slt, salted, ck]) ! (length h + 2) = ck"
    by (simp only: nth_new) simp
  have x: "xor_loop_at ks (length h + 2) (length h + 4) ?h3 =
      h @ [Hex_parse slt, salted, ck\<lparr>words := xor_loop ks (words ck) (words sg)\<rparr>, sk, sg]" for ks
    by (subst xor_loop_at_object) (simp_all only: n update_new, simp_all)
  have n4: "(h @ [Hex_parse slt, salted, w, sk, sg]) ! (length h + 2) = w"
      "(h @ [Hex_parse slt, salted, w, sk, sg]) ! (length h + 3) = sk"
      "(h @ [Hex_parse slt, salted, w, sk, sg]) ! (length h + 4) = sg" for w
    by (simp_all only: nth_new) simp_all
  have lhs: "calcProof_at L doc this h =
      (case array_keys (sigBytes ck / 4) of
         Inl e \<Rightarrow> ((Inl e, [], this), ?h3)
       | Inr ks \<Rightarrow>
           ((Inr (Hex_stringify (ck\<lparr>words := xor_loop ks (words ck) (words sg)\<rparr>)),
             (if \<not> doc
              then calcProof_log this (Hex_stringify ck) sk sg
                     (ck\<lparr>words := xor_loop ks (words ck) (words sg)\<rparr>)
              else []),
             this),
            h @ [Hex_parse slt, salted, ck\<lparr>words := xor_loop ks (words ck) (words sg)\<rparr>, sk, sg]))"
    unfolding calcProof_at_def d prod.case sum.case Let_def append_Nil n1 c1 f m n x n4
    by (simp split: sum.splits)
  have rhs: "calcProof L doc this =
      (case array_keys (sigBytes ck / 4) of
         Inl e \<Rightarrow> (Inl e, [], this)
       | Inr ks \<Rightarrow>
           (Inr (Hex_stringify (ck\<lparr>words := xor_loop ks (words ck) (words sg)\<rparr>)),
             (if \<not> doc
              then calcProof_log this (Hex_stringify ck) sk sg
                     (ck\<lparr>words := xor_loop ks (words ck) (words sg)\<rparr>)
              else []),
             this))"
    unfolding calcProof_def p sum.case Let_def append_Nil xor_in_place_def
    by (simp add: sk_def sg_def split: sum.splits)
  show ?thesis
    unfolding lhs rhs Let_def salted_def [symmetric] ck_def [symmetric] sk_def [symmetric]
      sg_def [symmetric] xor_in_place_def
    by (simp only: update_new split: sum.splits) (simp split: sum.splits)
qed


lemma calcServerProof_at_salt:
  assumes "salt this = Some slt"
  shows "calcServerProof_at L this h =
     (let salted = PBKDF2 L (Str (pwd this)) (WA (Hex_parse slt))
                     \<lparr>hasher = SHA256, iterations = iters this, keySize = KEYSIZE\<rparr>;
          serverKey = HmacSHA256 L (WA salted) (Str ''Server Key'');
          signature = HmacSHA256 L (WA serverKey) (input_of (sigSecret this))
      in (calcServerProof L this, h @ [Hex_parse slt, salted, serverKey, signature]))"
proof -
  define salted where "salted = PBKDF2 L (Str (pwd this)) (WA (Hex_parse slt))
                     \<lparr>hasher = SHA256, iterations = iters this, keySize = KEYSIZE\<rparr>"
  define sk where "sk = HmacSHA256 L (WA salted) (Str ''Server Key'')"
  define sg where "sg = HmacSHA256 L (WA sk) (input_of (sigSecret this))"
  have d: "deriveKey_at L this ''Server Key'' h = (Inr (length h + 2), h @ [Hex_parse slt, salted, sk])"
    unfolding deriveKey_at_salt [OF assms] salted_def sk_def by simp
  have p: "deriveKey L this ''Server Key'' = Inr sk"
    unfolding deriveKey_salt [OF assms] salted_def sk_def by simp
  have c1: "value_at (h @ [Hex_parse slt, salted, sk]) (ObjArg (length h + 2)) = WA sk"
    using value_at_new [of 2 "[Hex_parse slt, salted, sk]" h] by simp
  have m: "HmacSHA256_at L (ObjArg (length h + 2)) (arg_of (sigSecret this))
             (h @ [Hex_parse slt, salted, sk]) =
      (length h + 3, h @ [Hex_parse slt, salted, sk, sg])"
    unfolding HmacSHA256_at_def c1 value_at_arg_of by (simp add: alloc_def sg_def)
  have n: "(h @ [Hex_parse slt, salted, sk, sg]) ! (length h + 3) = sg"
    by (simp only: nth_new) simp
  have lhs: "calcServerProof_at L this h =
      ((Inr (Hex_stringify sg), [], this), h @ [Hex_parse slt, salted, sk, sg])"
    unfolding calcServerProof_at_def d prod.case sum.case m n ..
  have rhs: "calcServerProof L this = (Inr (Hex_stringify sg), [], this)"
    unfolding calcServerProof_def p sum.case Let_def sg_def ..
  show ?thesis
    unfolding lhs rhs Let_def salted_def [symmetric] sk_def [symmetric] sg_def [symmetric] ..
qed

lemma calcPubSig_at_salt:
  assumes "salt this = Some slt"
  shows "calcPubSig_at L this key h =
     (let salted = PBKDF2 L (Str (pwd this)) (WA (Hex_parse slt))
                     \<lparr>hasher = SHA256, iterations = iters this, keySize = KEYSIZE\<rparr>;
          serverKeyD = HmacSHA256 L (WA salted) (Str ''Server Key'');
          serverKey = Hex_parse (Hex_stringify serverKeyD);
          publicKey = Hex_parse key;
          signature = HmacSHA256 L (WA publicKey) (WA serverKey)
      in (calcPubSig L this key,
          h @ [Hex_parse slt, salted, serverKeyD, serverKey, publicKey, signature]))"
proof -
  define salted where "salted = PBKDF2 L (Str (pwd this)) (WA (Hex_parse slt))
                     \<lparr>hasher = SHA256, iterations = iters this, keySize = KEYSIZE\<rparr>"
  define kd where "kd = HmacSHA256 L (WA salted) (Str ''Server Key'')"
  define sk where "sk = Hex_parse (Hex_stringify kd)"
  define pk where "pk = Hex_parse key"
  define sg where "sg = HmacSHA256 L (WA pk) (WA sk)"
  have d: "deriveKey_at L this ''Server Key'' h = (Inr (length h + 2), h @ [Hex_parse slt, salted, kd])"
    unfolding deriveKey_at_salt [OF assms] salted_def kd_def by simp
  have p: "deriveKey L this ''Server Key'' = Inr kd"
    unfolding deriveKey_salt [OF assms] salted_def kd_def by simp
  have n1: "(h @ [Hex_parse slt, salted, kd]) ! (length h + 2) = kd"
    by (simp only: nth_new) simp
  have a1: "Hex_parse_at (Hex_stringify kd) (h @ [Hex_parse slt, salted, kd]) =
      (length h + 3, h @ [Hex_parse slt, salted, kd, sk])"
    by (simp add: Hex_parse_at_def alloc_def sk_def)
  have a2: "Hex_parse_at key (h @ [Hex_parse slt, salted, kd, sk]) =
      (length h + 4, h @ [Hex_parse slt, salted, kd, sk, pk])"
    by (simp add: Hex_parse_at_def alloc_def pk_def)
  have c1: "value_at (h @ [Hex_parse slt, salted, kd, sk, pk]) (ObjArg (length h + 4)) = WA pk"
    using value_at_new [of 4 "[Hex_parse slt, salted, kd, sk, pk]" h] by simp
  have c2: "value_at (h @ [Hex_parse slt, salted, kd, sk, pk]) (ObjArg (length h + 3)) = WA sk"
    using value_at_new [of 3 "[Hex_parse slt, salted, kd, sk, pk]" h] by simp
  have m: "HmacSHA256_at L (ObjArg (length h + 4)) (ObjArg (length h + 3))
             (h @ [Hex_parse slt, salted, kd, sk, pk]) =
      (length h + 5, h @ [Hex_parse slt, salted, kd, sk, pk, sg])"
    unfolding HmacSHA256_at_def c1 c2 by (simp add: alloc_def sg_def)
  have n: "(h @ [Hex_parse slt, salted, kd, sk, pk, sg]) ! (length h + 5) = sg"
    by (simp only: nth_new) simp
  have lhs: "calcPubSig_at L this key h =
      ((Inr (Hex_stringify sg), [], this), h @ [Hex_parse slt, salted, kd, sk, pk, sg])"
    unfolding calcPubSig_at_def d prod.case sum.case n1 a1 a2 m n ..
  have rhs: "calcPubSig L this key = (Inr (Hex_stringify sg), [], this)"
    unfolding calcPubSig_def p sum.case Let_def sg_def pk_def sk_def ..
  show ?thesis
    unfolding lhs rhs Let_def salted_def [symmetric] kd_def [symmetric] sk_def [symmetric]
      pk_def [symmetric] sg_def [symmetric] ..
qed

lemma proof_calls_unset:
  assumes "salt this = None"
  shows "calcProof_at L doc this h = (calcProof L doc this, h)"
    and "calcServerProof_at L this h = (calcServerProof L this, h)"
    and "calcPubSig_at L this key h = (calcPubSig L this key, h)"
  using assms
  by (simp_all add: calcProof_at_def calcProof_def calcServerProof_at_def calcServerProof_def
      calcPubSig_at_def calcPubSig_def deriveKey_at_def deriveKey_def)

lemma take_update_new: "take (length h) ((h @ xs)[length h + k := v]) = h"
  by (simp add: update_new)

lemma do_call_at_refines:
  "fst (do_call_at L doc c this h) = do_call L doc c this \<and>
   take (length h) (snd (do_call_at L doc c this h)) = h"
proof (cases "salt this")
  case None
  then show ?thesis
    by (cases c) (simp_all add: proof_calls_unset)
next
  case (Some slt)
  show ?thesis
  proof (cases c)
    case CalcProof
    then show ?thesis
      by (simp add: calcProof_at_salt [OF Some] Let_def take_update_new)
  next
    case CalcServerProof
    then show ?thesis
      by (simp add: calcServerProof_at_salt [OF Some] Let_def)
  next
    case (CalcPubSig key)
    then show ?thesis
      by (simp add: calcPubSig_at_salt [OF Some] Let_def)
  qed
qed

lemma take_prefix_trans:
  assumes "take (length h) h' = h" and "take (length h') h'' = h'"
  shows "take (length h) h'' = h"
proof -
  have "length (take (length h) h') = length h"
    using assms(1) by simp
  then have "length h \<le> length h'"
    by simp
  then have "take (length h) (take (length h') h'') = take (length h) h''"
    by (simp add: min_def)
  then show ?thesis using assms by simp
qed

lemma run_calls_at_refines:
  "fst (run_calls_at L doc cs this h) = run_calls L doc cs this \<and>
   take (length h) (snd (run_calls_at L doc cs this h)) = h"
proof (induction cs arbitrary: this h)
  case Nil
  then show ?case by simp
next
  case (Cons c cs)
  obtain r out this' h' where d: "do_call_at L doc c this h = ((r, out, this'), h')"
    by (cases "do_call_at L doc c this h") auto
  have p: "do_call L doc c this = (r, out, this')" and t: "take (length h) h' = h"
    using do_call_at_refines [of L doc c this h] d by simp_all
  obtain rs this'' h'' where e: "run_calls_at L doc cs this' h' = ((rs, this''), h'')"
    by (cases "run_calls_at L doc cs this' h'") auto
  have q: "run_calls L doc cs this' = (rs, this'')" and u: "take (length h') h'' = h'"
    using Cons.IH [of this' h'] e by simp_all
  show ?case
    using take_prefix_trans [OF t u] by (simp add: d e p q)
qed

text \<open>
  C10. With the parameters set, each of \<open>calcProof\<close>, \<open>calcServerProof\<close> and
  \<open>calcPubSig\<close>, run on any store of objects, returns the object with every field as
  it was and leaves every object that was in the store as it was; what it returns does
  not depend on the store. \<open>calcProof\<close> creates five objects (the decoded salt, the
  salted password, the client key, the stored key and the signature) and its loop
  changes the third of them, the client key derived in this call, and nothing else.
  So in any sequence of these calls each call returns what it returns when made alone,
  the sequence ends on the object it started from, and the objects that were there
  before it are unchanged.
\<close>

theorem proof_methods_leave_fields:
  "let this = setParams this0 cNonce sNonce slt its;
       authMessage = cNonce @ '','' @ sNonce @ '','' @ sNonce;
       saltWords = Hex_parse slt;
       salted = PBKDF2 L (Str (pwd this0)) (WA saltWords)
                  \<lparr>hasher = SHA256, iterations = Some its, keySize = 8\<rparr>;
       clientKey = HmacSHA256 L (WA salted) (Str ''Client Key'');
       storedKey = SHA256_finalize L [WA clientKey];
       signature = HmacSHA256 L (WA storedKey) (Str authMessage);
       serverKey = HmacSHA256 L (WA salted) (Str ''Server Key'');
       serverKeyParsed = Hex_parse (Hex_stringify serverKey)
   in calcProof_at L doc this h =
        (calcProof L doc this,
         (h @ [saltWords, salted, clientKey, storedKey, signature])
           [length h + 2 := (case xor_in_place clientKey signature of
                               Inl e \<Rightarrow> clientKey
                             | Inr xored \<Rightarrow> xored)]) \<and>
      calcServerProof_at L this h =
        (calcServerProof L this,
         h @ [saltWords, salted, serverKey, HmacSHA256 L (WA serverKey) (Str authMessage)]) \<and>
      calcPubSig_at L this key h =
        (calcPubSig L this key,
         h @ [saltWords, salted, serverKey, serverKeyParsed, Hex_parse key,
              HmacSHA256 L (WA (Hex_parse key)) (WA serverKeyParsed)]) \<and>
      snd (snd (calcProof L doc this)) = this \<and>
      snd (snd (calcServerProof L this)) = this \<and>
      snd (snd (calcPubSig L this key)) = this \<and>
      fst (run_calls_at L doc cs this h) = (map (\<lambda>c. fst (do_call L doc c this)) cs, this) \<and>
      take (length h) (snd (run_calls_at L doc cs this h)) = h"
proof -
  let ?st = "setParams this0 cNonce sNonce slt its"
  have s: "salt ?st = Some slt" "pwd ?st = pwd this0" "iters ?st = Some its"
    "input_of (sigSecret ?st) = Str (cNonce @ '','' @ sNonce @ '','' @ sNonce)"
    by (simp_all add: setParams_def input_of_def)
  show ?thesis
    unfolding Let_def
    using calcProof_at_salt [OF s(1), of L doc h] calcServerProof_at_salt [OF s(1), of L h]
      calcPubSig_at_salt [OF s(1), of L key h] run_calls_at_refines [of L doc cs ?st h]
    unfolding Let_def s KEYSIZE_def
    by (simp add: calcProof_state calcServerProof_state calcPubSig_state run_calls_same_object)
qed


section \<open>login: the chain of callbacks\<close>

lemma then_do_simps [simp]:
  "then_do (v, Fulfilled x) f = f v x"
  "then_do (v, Rejected e) f = (v, Rejected e)"
  "then_do (v, Pending) f = (v, Pending)"
  by (simp_all add: then_do_def)

lemma chain_challenge_shape:
  "\<exists>reqs p. chain_challenge E net this = ((login_start E this)\<lparr>sent := reqs\<rparr>, p)"
  unfolding chain_challenge_def initSession_def thenSession_def getServerToken_def thenToken_def
    post_def
  by (auto simp: Let_def split: reply.splits xml2js.splits option.splits prod.splits)

lemma chain_challenge_fulfilled:
  assumes "fulfilled (snd (chain_challenge E net this))"
    and "challenge_reply net = Reply scramReply"
  shows "\<exists>reqs. chain_challenge E net this =
           ((login_start E this)\<lparr>sent := reqs\<rparr>, Fulfilled scramReply) \<and> length reqs = 3"
  using assms
  unfolding chain_challenge_def initSession_def thenSession_def getServerToken_def thenToken_def
    post_def fulfilled_def
  by (auto simp: Let_def login_start_def split: reply.splits xml2js.splits option.splits prod.splits if_splits)


lemma login_unfold:
  "login L E net this =
     \<lparr>returned = None,
      attempt = snd (chain_verified L E net this),
      final = (case chain_verified L E net this of
                 (v, Rejected e) \<Rightarrow> catchError E v e
               | (v, _) \<Rightarrow> v)\<rparr>"
  by (simp add: login_def initSession_def login_start_def Let_def)

lemma missing_token_chain:
  assumes "fulfilled (snd (chain_challenge E net this))"
    and "challenge_reply net = Reply scramReply"
    and "resp_headers scramReply ''__requestverificationtoken'' = None"
  shows "\<exists>reqs. length reqs = 3 \<and> sent (fst (chain_challenge E net this)) = reqs \<and>
           chain_verified L E net this =
             ((login_start E this)\<lparr>sent := reqs\<rparr>,
              Rejected (Error ''Server did not supply verification token''))"
proof -
  obtain reqs where c: "chain_challenge E net this =
        ((login_start E this)\<lparr>sent := reqs\<rparr>, Fulfilled scramReply)" and l: "length reqs = 3"
    using chain_challenge_fulfilled [OF assms(1,2)] by blast
  have "chain_verified L E net this =
      ((login_start E this)\<lparr>sent := reqs\<rparr>,
       Rejected (Error ''Server did not supply verification token''))"
    by (simp add: chain_verified_def chain_authentication_def c thenChallengeReply_def assms(3)
        login_start_def Let_def)
  then show ?thesis using c l by simp
qed



lemma calcProof_same: "calcProof L doc s = (r, lines, s') \<Longrightarrow> s' = s"
  using calcProof_state [of L doc s] by simp

lemma calcServerProof_same: "calcServerProof L s = (r, lines, s') \<Longrightarrow> s' = s"
  using calcServerProof_state [of L s] by simp

lemma calcPubSig_same: "calcPubSig L s key = (r, lines, s') \<Longrightarrow> s' = s"
  using calcPubSig_state [of L s key] by simp

lemma thenChallengeReply_vars:
  assumes "thenChallengeReply v rsp = (v', p)"
  shows "localStorage v' = localStorage v \<and> scram v' = scram v \<and> firstNonce v' = firstNonce v \<and>
         sent v' = sent v \<and> written v' = written v \<and>
         veriToken v' = resp_headers rsp ''__requestverificationtoken'' \<and>
         (p = Fulfilled (data rsp) \<and> veriToken v' \<noteq> None \<or>
          p = Rejected (Error ''Server did not supply verification token'') \<and> veriToken v' = None)"
  using assms by (auto simp: thenChallengeReply_def Let_def split: if_splits)

lemma challenge_params_vars:
  assumes "challenge_params L E v resp = (v', p)"
  shows "localStorage v' = localStorage v \<and> veriToken v' = veriToken v \<and> sent v' = sent v \<and>
         (\<forall>x. p = Fulfilled x \<longrightarrow> salt (scram v') \<noteq> None) \<and>
         p \<noteq> Pending"
  using assms
  by (auto simp: challenge_params_def Let_def setParams_def
      split: option.splits prod.splits sum.splits dest!: calcProof_same)

lemma thenChallengeBody_vars:
  assumes "thenChallengeBody L E v body = (v', p)"
  shows "localStorage v' = localStorage v \<and> veriToken v' = veriToken v \<and> sent v' = sent v \<and>
         (\<forall>x. p = Fulfilled x \<longrightarrow> salt (scram v') \<noteq> None)"
proof (cases "parseXmlStr E body")
  case (ParseError e)
  then show ?thesis using assms by (auto simp: thenChallengeBody_def)
next
  case ParseNull
  then show ?thesis using assms by (auto simp: thenChallengeBody_def)
next
  case (Doc rootName children)
  obtain v2 later where cp:
    "challenge_params L E v (if rootName = ''response'' then Some children else None) = (v2, later)"
    by (cases "challenge_params L E v (if rootName = ''response'' then Some children else None)") auto
  note f = challenge_params_vars [OF cp]
  show ?thesis
  proof (cases "rootName = ''error''")
    case True
    then have "v' = v2" "\<forall>x. p \<noteq> Fulfilled x"
      using assms Doc cp by (auto simp: thenChallengeBody_def settle_def Let_def)
    then show ?thesis using f by simp
  next
    case False
    then have "v' = v2" "p = later"
      using assms Doc cp by (auto simp: thenChallengeBody_def settle_def Let_def)
    then show ?thesis using f by simp
  qed
qed

lemma thenLoginProof_vars:
  assumes "thenLoginProof this r v x = (v', p)"
  shows "localStorage v' = localStorage v \<and> veriToken v' = veriToken v \<and> scram v' = scram v \<and>
         (case r of Reply rsp \<Rightarrow> p = Fulfilled rsp | NoReply e \<Rightarrow> p = Rejected e)"
  using assms by (auto simp: thenLoginProof_def post_def Let_def split: reply.splits)

lemma then_do_cases:
  assumes "then_do (v, p) f = (v', q)"
  obtains x where "p = Fulfilled x" "f v x = (v', q)"
  | "v' = v" "\<forall>x. p \<noteq> Fulfilled x" "\<forall>y. q \<noteq> Fulfilled y"
  using assms by (cases p) (auto simp: then_do_def)

lemma chain_authentication_vars:
  assumes "chain_authentication L E net this = (v, p)"
  shows "localStorage v = stored E \<and>
         (\<forall>x. p = Fulfilled x \<longrightarrow>
            authentication_reply net = Reply x \<and> veriToken v \<noteq> None \<and>
            salt (scram v) \<noteq> None)"
proof -
  obtain reqs p0 where c0: "chain_challenge E net this = ((login_start E this)\<lparr>sent := reqs\<rparr>, p0)"
    using chain_challenge_shape by blast
  let ?v0 = "(login_start E this)\<lparr>sent := reqs\<rparr>"
  have s0: "localStorage ?v0 = stored E" by (simp add: login_start_def)
  obtain v1 p1 where c1: "then_do (?v0, p0) thenChallengeReply = (v1, p1)"
    by (cases "then_do (?v0, p0) thenChallengeReply") auto
  obtain v2 p2 where c2: "then_do (v1, p1) (thenChallengeBody L E) = (v2, p2)"
    by (cases "then_do (v1, p1) (thenChallengeBody L E)") auto
  have c3: "then_do (v2, p2) (thenLoginProof this (authentication_reply net)) = (v, p)"
    using assms by (simp add: chain_authentication_def c0 c1 c2)
  have f1: "localStorage v1 = stored E \<and> (\<forall>x. p1 = Fulfilled x \<longrightarrow> veriToken v1 \<noteq> None)"
    using c1
  proof (cases rule: then_do_cases)
    case (1 x)
    then show ?thesis using thenChallengeReply_vars [OF 1(2)] s0 by force
  next
    case 2
    then show ?thesis using s0 by simp
  qed
  have f2: "localStorage v2 = stored E \<and>
      (\<forall>x. p2 = Fulfilled x \<longrightarrow> veriToken v2 \<noteq> None \<and>
         salt (scram v2) \<noteq> None)"
    using c2
  proof (cases rule: then_do_cases)
    case (1 x)
    then show ?thesis using thenChallengeBody_vars [OF 1(2)] f1 by auto
  next
    case 2
    then show ?thesis using f1 by simp
  qed
  show ?thesis
    using c3
  proof (cases rule: then_do_cases)
    case (1 x)
    then show ?thesis using thenLoginProof_vars [OF 1(2)] f2 by (auto split: reply.splits)
  next
    case 2
    then show ?thesis using f2 by simp
  qed
qed

lemma calcServerProof_Inr:
  "salt s \<noteq> None \<Longrightarrow> \<exists>x. calcServerProof L s = (Inr x, [], s)"
  by (auto simp: calcServerProof_def deriveKey_def Let_def)

lemma calcPubSig_Inr:
  "salt s \<noteq> None \<Longrightarrow> \<exists>x. calcPubSig L s key = (Inr x, [], s)"
  by (auto simp: calcPubSig_def deriveKey_def Let_def)

lemma calcServerProof_triple:
  "calcServerProof L s = (r, ls, s') \<longleftrightarrow>
     fst (calcServerProof L s) = r \<and> fst (snd (calcServerProof L s)) = ls \<and> s' = s"
  using calcServerProof_state [of L s] by (cases "calcServerProof L s") auto

lemma calcPubSig_triple:
  "calcPubSig L s key = (r, ls, s') \<longleftrightarrow>
     fst (calcPubSig L s key) = r \<and> fst (snd (calcPubSig L s key)) = ls \<and> s' = s"
  using calcPubSig_state [of L s key] by (cases "calcPubSig L s key") auto

lemma verify_server_storage:
  assumes "verify_server L E v resp = (v', p)"
  shows "localStorage v' = localStorage v \<or> signatures_match L (scram v) resp"
  using assms
  unfolding verify_server_def signatures_match_def server_proof_failed_def
  by (auto simp: Let_def calcServerProof_triple calcPubSig_triple
      split: option.splits prod.splits sum.splits if_splits)

lemma verify_server_mismatch:
  assumes "salt (scram v) \<noteq> None"
    and "children ''rsapubkeysignature'' = Some (serverSig, y)"
    and "children ''rsan'' = Some (pubKey, z)"
    and "fst (calcPubSig L (scram v) pubKey) \<noteq> Inr serverSig"
  shows "verify_server L E v (Some children) =
     (v, Rejected (Error
           (case children ''serversignature'' of
              None \<Rightarrow> ''Failed to generate server proof. TypeError: Cannot read properties of undefined''
            | Some (resProof, x) \<Rightarrow>
                if fst (calcServerProof L (scram v)) = Inr resProof
                then ''Server provided an invalid RSA public key.''
                else ''Could not verify server identity.'')))"
proof -
  obtain a where a: "calcServerProof L (scram v) = (Inr a, [], scram v)"
    using calcServerProof_Inr [OF assms(1)] by blast
  obtain b where b: "calcPubSig L (scram v) pubKey = (Inr b, [], scram v)"
    using calcPubSig_Inr [OF assms(1)] by blast
  have n: "b \<noteq> serverSig" using assms(4) b by auto
  show ?thesis
  proof (cases "children ''serversignature''")
    case None
    then show ?thesis
      by (simp add: verify_server_def a server_proof_failed_def Let_def)
  next
    case (Some sig)
    obtain resProof x where sig: "sig = (resProof, x)" by (cases sig) auto
    show ?thesis
      using n by (simp add: verify_server_def a b Some sig assms(2,3) Let_def)
  qed
qed

lemma thenAuthenticationReply_vars:
  assumes "thenAuthenticationReply v rsp = (v', p)"
  shows "localStorage v' = localStorage v \<and> scram v' = scram v \<and>
         (veriToken v \<noteq> None \<longrightarrow> p = Fulfilled (data rsp)) \<and>
         (\<forall>x. p = Fulfilled x \<longrightarrow> x = data rsp)"
  using assms
  by (auto simp: thenAuthenticationReply_def split: option.splits if_splits)

lemma thenAuthenticationBody_response:
  "parseXmlStr E text = Doc ''response'' children \<Longrightarrow>
   thenAuthenticationBody L E v text = verify_server L E v (Some children)"
  by (simp add: thenAuthenticationBody_def)

lemma thenAuthenticationBody_storage:
  assumes "thenAuthenticationBody L E v text = (v', p)"
  shows "localStorage v' = localStorage v \<or>
         signatures_match L (scram v) (response_of (parseXmlStr E text))"
proof (cases "parseXmlStr E text")
  case (ParseError e)
  then obtain later where "verify_server L E v None = (v', later)"
    using assms by (auto simp: thenAuthenticationBody_def split: prod.splits)
  from verify_server_storage [OF this] show ?thesis
    by (simp add: signatures_match_def)
next
  case ParseNull
  then have "verify_server L E v None = (v', p)"
    using assms by (simp add: thenAuthenticationBody_def)
  from verify_server_storage [OF this] show ?thesis
    by (simp add: signatures_match_def)
next
  case (Doc rootName children)
  then have "verify_server L E v (response_of (parseXmlStr E text)) = (v', p)"
    using assms by (simp add: thenAuthenticationBody_def response_of_def)
  from verify_server_storage [OF this] show ?thesis .
qed

lemma catchError_vars:
  "localStorage (catchError E v e) = localStorage v"
  "sent (catchError E v e) = sent v"
  "scram (catchError E v e) = scram v"
  "finalNonce (catchError E v e) = finalNonce v"
  "veriToken (catchError E v e) = veriToken v"
  by (simp_all add: catchError_def Let_def)

lemma final_storage:
  "localStorage (final (login L E net this)) = localStorage (fst (chain_verified L E net this))"
  by (cases "chain_verified L E net this"; cases "snd (chain_verified L E net this)")
     (auto simp: login_unfold catchError_vars)

lemma persist_needs_both:
  assumes "localStorage (fst (chain_verified L E net this)) \<noteq> stored E"
  shows "both_signatures_match L E net this"
proof -
  obtain v p where ca: "chain_authentication L E net this = (v, p)"
    by (cases "chain_authentication L E net this") auto
  note inv = chain_authentication_vars [OF ca]
  obtain v1 p1 where c1: "then_do (v, p) thenAuthenticationReply = (v1, p1)"
    by (cases "then_do (v, p) thenAuthenticationReply") auto
  obtain v2 p2 where c2: "then_do (v1, p1) (thenAuthenticationBody L E) = (v2, p2)"
    by (cases "then_do (v1, p1) (thenAuthenticationBody L E)") auto
  have cv: "chain_verified L E net this = (v2, p2)"
    by (simp add: chain_verified_def ca c1 c2)
  have changed: "localStorage v2 \<noteq> localStorage v"
    using assms inv by (simp add: cv)
  from c1 show ?thesis
  proof (cases rule: then_do_cases)
    case (1 scramReply)
    note r = thenAuthenticationReply_vars [OF 1(2)]
    from c2 show ?thesis
    proof (cases rule: then_do_cases)
      case (1 body)
      then have "body = data scramReply" using r by simp
      moreover have "localStorage v2 \<noteq> localStorage v1" using changed r by simp
      ultimately have "signatures_match L (scram v) (response_of (parseXmlStr E (data scramReply)))"
        using thenAuthenticationBody_storage [OF 1(2)] r by auto
      then show ?thesis
        using \<open>p = Fulfilled scramReply\<close> by (simp add: both_signatures_match_def ca)
    next
      case 2
      then show ?thesis using changed r by simp
    qed
  next
    case 2
    from c2 show ?thesis
    proof (cases rule: then_do_cases)
      case (1 body)
      then show ?thesis using 2 by simp
    next
      case 2
      then show ?thesis using changed \<open>v1 = v\<close> by simp
    qed
  qed
qed

lemma key_mismatch_chain:
  assumes "fulfilled (snd (chain_authentication L E net this))"
    and "authentication_reply net = Reply scramReply"
    and "parseXmlStr E (data scramReply) = Doc ''response'' children"
    and "children ''rsapubkeysignature'' = Some (serverSig, y)"
    and "children ''rsan'' = Some (pubKey, z)"
    and "fst (calcPubSig L (scram (fst (chain_authentication L E net this))) pubKey) \<noteq> Inr serverSig"
  shows "snd (chain_verified L E net this) =
           Rejected (Error
             (case children ''serversignature'' of
                None \<Rightarrow> ''Failed to generate server proof. TypeError: Cannot read properties of undefined''
              | Some (resProof, x) \<Rightarrow>
                  if fst (calcServerProof L (scram (fst (chain_authentication L E net this)))) =
                       Inr resProof
                  then ''Server provided an invalid RSA public key.''
                  else ''Could not verify server identity.'')) \<and>
         localStorage (fst (chain_verified L E net this)) = stored E"
proof -
  obtain v p where ca: "chain_authentication L E net this = (v, p)"
    by (cases "chain_authentication L E net this") auto
  obtain r where pr: "p = Fulfilled r"
    using assms(1) by (cases p) (simp_all add: ca fulfilled_def)
  have inv: "localStorage v = stored E \<and>
         (\<forall>x. p = Fulfilled x \<longrightarrow>
            authentication_reply net = Reply x \<and> veriToken v \<noteq> None \<and> salt (scram v) \<noteq> None)"
    by (rule chain_authentication_vars [OF ca])
  have st: "localStorage v = stored E" using inv by blast
  have "authentication_reply net = Reply r \<and> veriToken v \<noteq> None \<and> salt (scram v) \<noteq> None"
    using inv pr by blast
  then have rr: "r = scramReply" and tok: "veriToken v \<noteq> None" and slt: "salt (scram v) \<noteq> None"
    using assms(2) by simp_all
  obtain v1 p1 where c1: "thenAuthenticationReply v scramReply = (v1, p1)"
    by (cases "thenAuthenticationReply v scramReply") auto
  have r1: "localStorage v1 = localStorage v" and r2: "scram v1 = scram v"
    and r3: "p1 = Fulfilled (data scramReply)"
    using thenAuthenticationReply_vars [OF c1] tok by blast+
  have m: "fst (calcPubSig L (scram v1) pubKey) \<noteq> Inr serverSig"
    using assms(6) unfolding ca fst_conv r2 .
  have slt1: "salt (scram v1) \<noteq> None" using slt unfolding r2 .
  have cv: "chain_verified L E net this = verify_server L E v1 (Some children)"
    unfolding chain_verified_def ca pr rr then_do_simps c1 r3
    by (rule thenAuthenticationBody_response [OF assms(3)])
  note vs = verify_server_mismatch [OF slt1 assms(4,5) m, of E]
  show ?thesis
    unfolding cv vs ca fst_conv snd_conv r1 r2 st by simp
qed



lemma parse_unsigned_body:
  "parseXmlStr test_env unsigned_body =
     Doc ''response''
       [''rsapubkeysignature'' \<mapsto>
          (''955d8d15965e8e16975f8f1798609018996191199a62921a9b63931b9c64941d'', []),
        ''rsan'' \<mapsto> (''c0ffee'', []), ''rsae'' \<mapsto> (''010001'', [])]"
  by (simp add: test_env_def test_parseXmlStr_def waittime_body_def token_body_def
      challenge_body_def authentication_body_def corrupted_body_def unsigned_body_def)

lemma unsigned_authentication:
  "(case chain_authentication test_cryptojs test_env unsigned_net test_api of
      (v, p) \<Rightarrow> (fulfilled p, scram v)) =
   (True,
    setParams (new_HwScramAuth ''admin'')
      ''0000000100000002000000030000000400000005000000060000000700000008'' ''s1'' ''aabb''
      (Num 1000))"
  by code_simp

lemma unsigned_run:
  "(case chain_verified test_cryptojs test_env unsigned_net test_api of
      (v, p) \<Rightarrow> (p, localStorage v ''rsan'', localStorage v ''rsae'')) =
   (Rejected (Error ''Failed to generate server proof. TypeError: Cannot read properties of undefined''),
    None, None)"
  by code_simp

lemma stored_test_env: "stored test_env = Map.empty"
  by (simp add: test_env_def)


lemma parse_corrupted_body:
  "parseXmlStr test_env corrupted_body =
     Doc ''response''
       [''serversignature'' \<mapsto>
          (''a009b116a10ab217a20bb318a30cb419a40db51aa50eb61ba60fb71ca710b81d'', []),
        ''rsapubkeysignature'' \<mapsto>
          (''955d8d15965e8e16975f8f1798609018996191199a62921a9b63931b9c64941d'', []),
        ''rsan'' \<mapsto> (''c0ffee'', []), ''rsae'' \<mapsto> (''010001'', [])]"
  by (simp add: test_env_def test_parseXmlStr_def waittime_body_def token_body_def
      challenge_body_def authentication_body_def corrupted_body_def)

lemma honest_run:
  "(case chain_verified test_cryptojs test_env test_net test_api of
      (v, p) \<Rightarrow> (p, veriToken v, localStorage v ''rsan'', localStorage v ''rsae'')) =
   (Pending, Some ''VT2'', Some ''c0ffee'', Some ''010001'')"
  by code_simp

lemma honest_signatures: "both_signatures_match test_cryptojs test_env test_net test_api"
  by code_simp

lemma corrupted_authentication:
  "(case chain_authentication test_cryptojs test_env corrupted_net test_api of
      (v, p) \<Rightarrow> (fulfilled p, scram v)) =
   (True,
    setParams (new_HwScramAuth ''admin'')
      ''0000000100000002000000030000000400000005000000060000000700000008'' ''s1'' ''aabb''
      (Num 1000))"
  by code_simp

lemma test_pubsig:
  "fst (calcPubSig test_cryptojs
          (setParams (new_HwScramAuth ''admin'')
             ''0000000100000002000000030000000400000005000000060000000700000008'' ''s1'' ''aabb''
             (Num 1000)) ''c0ffee'') =
     Inr ''955d8d15965e8e16975f8f1798609018996191199a62921a9b63931b9c64941c''"
  by code_simp

lemma test_server_proof:
  "fst (calcServerProof test_cryptojs
          (setParams (new_HwScramAuth ''admin'')
             ''0000000100000002000000030000000400000005000000060000000700000008'' ''s1'' ''aabb''
             (Num 1000))) =
     Inr ''a009b116a10ab217a20bb318a30cb419a40db51aa50eb61ba60fb71ca710b81d''"
  by code_simp

lemma challenge_reached:
  "fulfilled (snd (chain_challenge test_env test_net test_api))"
  by code_simp

text \<open>
  C4. \<open>login\<close> returns the value that \<open>veriToken\<close> has when the synchronous part
  ends, which is \<open>undefined\<close> whatever the device answers later. Against the honest
  test device the chain then verifies it, stores its key and ends with the token
  "VT2", which the caller of \<open>login\<close> never received.
\<close>

theorem login_returns_before_chain:
  "returned (login L E net this) = veriToken (login_start E this) \<and>
   returned (login L E net this) = None \<and>
   returned (login test_cryptojs test_env test_net test_api) = None \<and>
   both_signatures_match test_cryptojs test_env test_net test_api \<and>
   attempt (login test_cryptojs test_env test_net test_api) = Pending \<and>
   veriToken (final (login test_cryptojs test_env test_net test_api)) = Some ''VT2'' \<and>
   localStorage (final (login test_cryptojs test_env test_net test_api)) ''rsan'' = Some ''c0ffee''"
proof -
  obtain v p where c: "chain_verified test_cryptojs test_env test_net test_api = (v, p)"
    by (cases "chain_verified test_cryptojs test_env test_net test_api") auto
  have "p = Pending" "veriToken v = Some ''VT2''" "localStorage v ''rsan'' = Some ''c0ffee''"
    using honest_run by (simp_all add: c)
  then show ?thesis
    using honest_signatures by (simp add: login_unfold login_start_def c)
qed

text \<open>
  C9. When the answer to the challenge request lacks the header
  \<open>__requestverificationtoken\<close> (axios reads header names in lower case), the chain is
  rejected with the error "Server did not supply verification token", which the
  \<open>catch\<close> callback reports; no further request is sent, no parameter is set and the
  local storage is as before.
\<close>

theorem missing_token_rejected:
  assumes "fulfilled (snd (chain_challenge E net this))"
    and "challenge_reply net = Reply scramReply"
    and "resp_headers scramReply ''__requestverificationtoken'' = None"
  shows "attempt (login L E net this) =
           Rejected (Error ''Server did not supply verification token'') \<and>
         sent (final (login L E net this)) = sent (fst (chain_challenge E net this)) \<and>
         length (sent (final (login L E net this))) = 3 \<and>
         finalNonce (final (login L E net this)) = None \<and>
         scram (final (login L E net this)) = new_HwScramAuth (authPwd this) \<and>
         localStorage (final (login L E net this)) = stored E \<and>
         written (final (login L E net this)) =
           (if has_document E
            then [InnerText ''h2'' ''Error while logging in'',
                  InnerText ''code'' ''Server did not supply verification token'']
            else [ConsoleError ''Error while logging in: Server did not supply verification token''])"
proof -
  obtain reqs where l: "length reqs = 3"
    and s: "sent (fst (chain_challenge E net this)) = reqs"
    and c: "chain_verified L E net this =
             ((login_start E this)\<lparr>sent := reqs\<rparr>,
              Rejected (Error ''Server did not supply verification token''))"
    using missing_token_chain [OF assms] by blast
  show ?thesis
    by (simp add: login_unfold c s l catchError_def login_start_def Let_def)
qed

theorem missing_token_rejected_witness:
  "fulfilled (snd (chain_challenge test_env no_token_net test_api)) \<and>
   challenge_reply no_token_net = ok_reply Map.empty challenge_body \<and>
   attempt (login test_cryptojs test_env no_token_net test_api) =
     Rejected (Error ''Server did not supply verification token'') \<and>
   length (sent (final (login test_cryptojs test_env no_token_net test_api))) = 3 \<and>
   localStorage (final (login test_cryptojs test_env no_token_net test_api)) = Map.empty"
proof -
  let ?r = "\<lparr>statusText = ''OK'', resp_headers = Map.empty, data = challenge_body\<rparr>"
  have f: "fulfilled (snd (chain_challenge test_env no_token_net test_api))"
    by code_simp
  have r: "challenge_reply no_token_net = Reply ?r"
    by (simp add: no_token_net_def ok_reply_def)
  have h: "resp_headers ?r ''__requestverificationtoken'' = None"
    by simp
  note t = missing_token_rejected [OF f r h, of test_cryptojs]
  have a: "attempt (login test_cryptojs test_env no_token_net test_api) =
     Rejected (Error ''Server did not supply verification token'')"
    and b: "length (sent (final (login test_cryptojs test_env no_token_net test_api))) = 3"
    and c: "localStorage (final (login test_cryptojs test_env no_token_net test_api)) = stored test_env"
    using t by blast+
  show ?thesis
    using f r a b c by (simp add: ok_reply_def stored_test_env)
qed



text \<open>
  C5, as stated, fails: a final answer whose \<open>rsapubkeysignature\<close> differs from the
  signature computed over \<open>rsan\<close>, and which has no \<open>serversignature\<close> element, is
  rejected with the error "Failed to generate server proof." followed by the TypeError
  of reading the missing element, which is neither of the two errors of a failed
  identity check. The local storage is as before in this case too.
\<close>

theorem missing_serversignature_counterexample:
  "fulfilled (snd (chain_authentication test_cryptojs test_env unsigned_net test_api)) \<and>
   authentication_reply unsigned_net =
     ok_reply [''__requestverificationtokenone'' \<mapsto> ''VT2''] unsigned_body \<and>
   parseXmlStr test_env unsigned_body =
     Doc ''response''
       [''rsapubkeysignature'' \<mapsto>
          (''955d8d15965e8e16975f8f1798609018996191199a62921a9b63931b9c64941d'', []),
        ''rsan'' \<mapsto> (''c0ffee'', []), ''rsae'' \<mapsto> (''010001'', [])] \<and>
   fst (calcPubSig test_cryptojs
          (scram (fst (chain_authentication test_cryptojs test_env unsigned_net test_api))) ''c0ffee'') =
     Inr ''955d8d15965e8e16975f8f1798609018996191199a62921a9b63931b9c64941c'' \<and>
   attempt (login test_cryptojs test_env unsigned_net test_api) =
     Rejected (Error ''Failed to generate server proof. TypeError: Cannot read properties of undefined'') \<and>
   attempt (login test_cryptojs test_env unsigned_net test_api) \<noteq>
     Rejected (Error ''Server provided an invalid RSA public key.'') \<and>
   attempt (login test_cryptojs test_env unsigned_net test_api) \<noteq>
     Rejected (Error ''Could not verify server identity.'') \<and>
   localStorage (final (login test_cryptojs test_env unsigned_net test_api)) = Map.empty"
proof -
  obtain v p where c: "chain_authentication test_cryptojs test_env unsigned_net test_api = (v, p)"
    by (cases "chain_authentication test_cryptojs test_env unsigned_net test_api") auto
  have f: "fulfilled (snd (chain_authentication test_cryptojs test_env unsigned_net test_api))"
    and s: "scram (fst (chain_authentication test_cryptojs test_env unsigned_net test_api)) =
      setParams (new_HwScramAuth ''admin'')
        ''0000000100000002000000030000000400000005000000060000000700000008'' ''s1'' ''aabb''
        (Num 1000)"
    using unsigned_authentication by (simp_all add: c)
  have r: "authentication_reply unsigned_net =
      ok_reply [''__requestverificationtokenone'' \<mapsto> ''VT2''] unsigned_body"
    by (simp add: unsigned_net_def)
  obtain v' p' where c': "chain_verified test_cryptojs test_env unsigned_net test_api = (v', p')"
    by (cases "chain_verified test_cryptojs test_env unsigned_net test_api") auto
  have a: "p' = Rejected (Error ''Failed to generate server proof. TypeError: Cannot read properties of undefined'')"
    and b: "localStorage v' ''rsan'' = None"
    using unsigned_run by (simp_all add: c')
  have a': "attempt (login test_cryptojs test_env unsigned_net test_api) =
     Rejected (Error ''Failed to generate server proof. TypeError: Cannot read properties of undefined'')"
    by (simp add: login_unfold c' a)
  let ?r = "\<lparr>statusText = ''OK'', resp_headers = [''__requestverificationtokenone'' \<mapsto> ''VT2''],
             data = unsigned_body\<rparr>"
  let ?ch = "[''rsapubkeysignature'' \<mapsto>
          (''955d8d15965e8e16975f8f1798609018996191199a62921a9b63931b9c64941d'', []),
        ''rsan'' \<mapsto> (''c0ffee'', []), ''rsae'' \<mapsto> (''010001'', [])]
        :: string \<rightharpoonup> string \<times> string list"
  have r': "authentication_reply unsigned_net = Reply ?r"
    by (simp add: unsigned_net_def ok_reply_def)
  have q: "parseXmlStr test_env (data ?r) = Doc ''response'' ?ch"
    using parse_unsigned_body by simp
  have m: "fst (calcPubSig test_cryptojs
          (scram (fst (chain_authentication test_cryptojs test_env unsigned_net test_api))) ''c0ffee'') \<noteq>
     Inr ''955d8d15965e8e16975f8f1798609018996191199a62921a9b63931b9c64941d''"
    unfolding s test_pubsig by simp
  have "localStorage (fst (chain_verified test_cryptojs test_env unsigned_net test_api)) =
      stored test_env"
    using key_mismatch_chain [OF f r' q _ _ m, of "[]" "[]"] by simp
  then have st: "localStorage (final (login test_cryptojs test_env unsigned_net test_api)) = Map.empty"
    by (simp add: final_storage stored_test_env)
  show ?thesis
    unfolding a' s test_pubsig
    using f r parse_unsigned_body st by simp
qed

text \<open>
  C5, amended. When the final answer has the fields \<open>rsapubkeysignature\<close> and
  \<open>rsan\<close>, and \<open>rsapubkeysignature\<close> differs from the signature computed over
  \<open>rsan\<close>, the chain is rejected and the local storage is as before. Where the answer
  has a \<open>serversignature\<close> the error is one of the two identity errors: "Server
  provided an invalid RSA public key." where the server signature matched, "Could not
  verify server identity." where it did not. Where it has none, the error is "Failed
  to generate server proof." with the TypeError. Whenever a login changes the local
  storage, both comparisons have succeeded.
\<close>

theorem public_key_mismatch_rejected:
  "(fulfilled (snd (chain_authentication L E net this)) \<and>
    authentication_reply net = Reply scramReply \<and>
    parseXmlStr E (data scramReply) = Doc ''response'' children \<and>
    children ''rsapubkeysignature'' = Some (serverSig, y) \<and>
    children ''rsan'' = Some (pubKey, z) \<and>
    fst (calcPubSig L (scram (fst (chain_authentication L E net this))) pubKey) \<noteq> Inr serverSig \<longrightarrow>
      attempt (login L E net this) =
        Rejected (Error
          (case children ''serversignature'' of
             None \<Rightarrow> ''Failed to generate server proof. TypeError: Cannot read properties of undefined''
           | Some (resProof, x) \<Rightarrow>
               if fst (calcServerProof L (scram (fst (chain_authentication L E net this)))) =
                    Inr resProof
               then ''Server provided an invalid RSA public key.''
               else ''Could not verify server identity.'')) \<and>
      localStorage (final (login L E net this)) = stored E) \<and>
   (localStorage (final (login L E net this)) \<noteq> stored E \<longrightarrow> both_signatures_match L E net this)"
proof (intro conjI impI)
  assume a: "fulfilled (snd (chain_authentication L E net this)) \<and>
    authentication_reply net = Reply scramReply \<and>
    parseXmlStr E (data scramReply) = Doc ''response'' children \<and>
    children ''rsapubkeysignature'' = Some (serverSig, y) \<and>
    children ''rsan'' = Some (pubKey, z) \<and>
    fst (calcPubSig L (scram (fst (chain_authentication L E net this))) pubKey) \<noteq> Inr serverSig"
  have k: "snd (chain_verified L E net this) =
           Rejected (Error
             (case children ''serversignature'' of
                None \<Rightarrow> ''Failed to generate server proof. TypeError: Cannot read properties of undefined''
              | Some (resProof, x) \<Rightarrow>
                  if fst (calcServerProof L (scram (fst (chain_authentication L E net this)))) =
                       Inr resProof
                  then ''Server provided an invalid RSA public key.''
                  else ''Could not verify server identity.'')) \<and>
         localStorage (fst (chain_verified L E net this)) = stored E"
    using a by (intro key_mismatch_chain) blast+
  show "attempt (login L E net this) =
        Rejected (Error
          (case children ''serversignature'' of
             None \<Rightarrow> ''Failed to generate server proof. TypeError: Cannot read properties of undefined''
           | Some (resProof, x) \<Rightarrow>
               if fst (calcServerProof L (scram (fst (chain_authentication L E net this)))) =
                    Inr resProof
               then ''Server provided an invalid RSA public key.''
               else ''Could not verify server identity.''))"
    using k by (simp add: login_unfold)
  show "localStorage (final (login L E net this)) = stored E"
    using k by (simp add: final_storage)
next
  assume "localStorage (final (login L E net this)) \<noteq> stored E"
  then show "both_signatures_match L E net this"
    by (simp add: final_storage persist_needs_both)
qed

theorem public_key_mismatch_rejected_witness:
  "fulfilled (snd (chain_authentication test_cryptojs test_env corrupted_net test_api)) \<and>
   authentication_reply corrupted_net =
     ok_reply [''__requestverificationtokenone'' \<mapsto> ''VT2''] corrupted_body \<and>
   fst (calcPubSig test_cryptojs
          (scram (fst (chain_authentication test_cryptojs test_env corrupted_net test_api))) ''c0ffee'') \<noteq>
     Inr ''955d8d15965e8e16975f8f1798609018996191199a62921a9b63931b9c64941d'' \<and>
   attempt (login test_cryptojs test_env corrupted_net test_api) =
     Rejected (Error ''Server provided an invalid RSA public key.'') \<and>
   localStorage (final (login test_cryptojs test_env corrupted_net test_api)) = Map.empty \<and>
   localStorage (final (login test_cryptojs test_env test_net test_api)) \<noteq> stored test_env \<and>
   both_signatures_match test_cryptojs test_env test_net test_api"
proof -
  let ?r = "\<lparr>statusText = ''OK'', resp_headers = [''__requestverificationtokenone'' \<mapsto> ''VT2''],
             data = corrupted_body\<rparr>"
  let ?ch = "[''serversignature'' \<mapsto>
          (''a009b116a10ab217a20bb318a30cb419a40db51aa50eb61ba60fb71ca710b81d'', []),
        ''rsapubkeysignature'' \<mapsto>
          (''955d8d15965e8e16975f8f1798609018996191199a62921a9b63931b9c64941d'', []),
        ''rsan'' \<mapsto> (''c0ffee'', []), ''rsae'' \<mapsto> (''010001'', [])]
        :: string \<rightharpoonup> string \<times> string list"
  obtain v p where c: "chain_authentication test_cryptojs test_env corrupted_net test_api = (v, p)"
    by (cases "chain_authentication test_cryptojs test_env corrupted_net test_api") auto
  have f: "fulfilled (snd (chain_authentication test_cryptojs test_env corrupted_net test_api))"
    and s: "scram (fst (chain_authentication test_cryptojs test_env corrupted_net test_api)) =
      setParams (new_HwScramAuth ''admin'')
        ''0000000100000002000000030000000400000005000000060000000700000008'' ''s1'' ''aabb''
        (Num 1000)"
    using corrupted_authentication by (simp_all add: c)
  have r: "authentication_reply corrupted_net = Reply ?r"
    by (simp add: corrupted_net_def ok_reply_def)
  have q: "parseXmlStr test_env (data ?r) = Doc ''response'' ?ch"
    using parse_corrupted_body by simp
  have m: "fst (calcPubSig test_cryptojs
          (scram (fst (chain_authentication test_cryptojs test_env corrupted_net test_api))) ''c0ffee'') \<noteq>
     Inr ''955d8d15965e8e16975f8f1798609018996191199a62921a9b63931b9c64941d''"
    unfolding s test_pubsig by simp
  have h: "fulfilled (snd (chain_authentication test_cryptojs test_env corrupted_net test_api)) \<and>
    authentication_reply corrupted_net = Reply ?r \<and>
    parseXmlStr test_env (data ?r) = Doc ''response'' ?ch \<and>
    ?ch ''rsapubkeysignature'' =
      Some (''955d8d15965e8e16975f8f1798609018996191199a62921a9b63931b9c64941d'', []) \<and>
    ?ch ''rsan'' = Some (''c0ffee'', []) \<and>
    fst (calcPubSig test_cryptojs
          (scram (fst (chain_authentication test_cryptojs test_env corrupted_net test_api))) ''c0ffee'') \<noteq>
     Inr ''955d8d15965e8e16975f8f1798609018996191199a62921a9b63931b9c64941d''"
    using f r q m by simp
  note t = public_key_mismatch_rejected
    [of test_cryptojs test_env corrupted_net test_api ?r ?ch
        "''955d8d15965e8e16975f8f1798609018996191199a62921a9b63931b9c64941d''" "[]"
        "''c0ffee''" "[]", THEN conjunct1, rule_format, OF h]
  have a: "attempt (login test_cryptojs test_env corrupted_net test_api) =
     Rejected (Error ''Server provided an invalid RSA public key.'')"
    using t unfolding s test_server_proof by simp
  have b: "localStorage (final (login test_cryptojs test_env corrupted_net test_api)) = Map.empty"
    using t by (simp add: stored_test_env)
  obtain v' p' where c': "chain_verified test_cryptojs test_env test_net test_api = (v', p')"
    by (cases "chain_verified test_cryptojs test_env test_net test_api") auto
  have "localStorage v' ''rsan'' = Some ''c0ffee''"
    using honest_run by (simp add: c')
  then have "localStorage (final (login test_cryptojs test_env test_net test_api)) ''rsan'' \<noteq>
      stored test_env ''rsan''"
    by (simp add: final_storage c' stored_test_env)
  then have n: "localStorage (final (login test_cryptojs test_env test_net test_api)) \<noteq> stored test_env"
    by metis
  note u = public_key_mismatch_rejected
    [of test_cryptojs test_env test_net test_api, THEN conjunct2, rule_format, OF n]
  show ?thesis
    using f r m a b n u by (simp add: ok_reply_def)
qed

end
